theory Spec2Isabelle
  imports Complex_Main "HOL-Library.Multiset"
begin

section \<open>Recycling route optimizer: the routing core of \<open>RouteOptimizer\<close>\<close>

text \<open>
  The theory embeds the class \<open>RouteOptimizer\<close> of
  \<open>src/application/recycling_route_optimizer.py\<close>.

  Numbers. The program computes with IEEE doubles. Distances, weights, prices and
  coordinates are elements of a type \<open>'a\<close> of which the definitions use only \<open>0\<close>,
  \<open>1\<close>, \<open>+\<close>, \<open>-\<close>, \<open>*\<close>, \<open>/\<close> and a linear order, so that no law of exact arithmetic
  (associativity, cancellation) enters a proof about them; where a statement needs such
  a law (\<open>x + 0 = x\<close>, \<open>w * 0 = 0\<close>), it is made for an ordered field and says so.
  NaN, which is outside every linear order, is not a value of the model, except for the
  missing price that a left merge produces, which is \<open>None\<close>. The example
  instances are over the reals.

  Errors. A Python exception is a value \<open>Inl e\<close> of the result type
  \<open>py_error + 'r\<close>.
\<close>

datatype py_error = IndexError | KeyError | ValueError | ZeroDivisionError

subsection \<open>Indexing\<close>

text \<open>
  \<open>a[i]\<close> on a list or a numpy array with a Python integer: a negative index counts from
  the end, an index out of range raises \<open>IndexError\<close>.
\<close>

definition py_index :: "'b list \<Rightarrow> int \<Rightarrow> py_error + 'b" where
  "py_index xs i =
     (if 0 \<le> i \<and> i < int (length xs) then Inr (xs ! nat i)
      else if i < 0 \<and> - int (length xs) \<le> i then Inr (xs ! nat (int (length xs) + i))
      else Inl IndexError)"

text \<open>\<open>distance_matrix[a][b]\<close>: the row first, then the entry of the row.\<close>

definition matrix_get :: "'a list list \<Rightarrow> int \<Rightarrow> int \<Rightarrow> py_error + 'a" where
  "matrix_get m a b = (case py_index m a of Inl e \<Rightarrow> Inl e | Inr row \<Rightarrow> py_index row b)"

subsection \<open>\<open>calculate_route_distance\<close>\<close>

text \<open>
  \<open>total = 0; for i in range(len(route) - 1): total += distance_matrix[route[i]][route[i + 1]]\<close>.
  The accumulator \<open>tot\<close> is the loop's \<open>total\<close>; the edges are added from left to right.
\<close>

fun route_sum :: "'a::{zero,plus} list list \<Rightarrow> 'a \<Rightarrow> int list \<Rightarrow> py_error + 'a" where
  "route_sum m tot (a # b # rest) =
     (case matrix_get m a b of
        Inl e \<Rightarrow> Inl e
      | Inr d \<Rightarrow> route_sum m (tot + d) (b # rest))"
| "route_sum m tot [a] = Inr tot"
| "route_sum m tot [] = Inr tot"

definition calculate_route_distance :: "int list \<Rightarrow> 'a::{zero,plus} list list \<Rightarrow> py_error + 'a" where
  "calculate_route_distance route m = route_sum m 0 route"

subsection \<open>\<open>two_opt_improvement\<close>\<close>

text \<open>\<open>route[:i] + route[i:j+1][::-1] + route[j+1:]\<close>\<close>

definition reverse_segment :: "int list \<Rightarrow> nat \<Rightarrow> nat \<Rightarrow> int list" where
  "reverse_segment route i j =
     take i route @ rev (take (j + 1 - i) (drop i route)) @ drop (j + 1) route"

text \<open>
  The inner loop \<open>for j in range(i + 1, len(route) - 1)\<close>, over the values of \<open>j\<close> still
  to try. \<open>Inr (Some (new_route, new_distance))\<close> is the \<open>break\<close> at the first
  reversal with \<open>new_distance < best_distance\<close>; \<open>Inr None\<close> is the loop running out.
\<close>

fun scan_j :: "int list \<Rightarrow> 'a::{zero,plus,linorder} list list \<Rightarrow> 'a \<Rightarrow> nat \<Rightarrow> nat list
    \<Rightarrow> py_error + (int list \<times> 'a) option" where
  "scan_j route m best_distance i [] = Inr None"
| "scan_j route m best_distance i (j # js) =
     (let new_route = reverse_segment route i j in
      case calculate_route_distance new_route m of
        Inl e \<Rightarrow> Inl e
      | Inr new_distance \<Rightarrow>
          if new_distance < best_distance then Inr (Some (new_route, new_distance))
          else scan_j route m best_distance i js)"

text \<open>
  The loop \<open>for i in range(1, len(route) - 2)\<close> with its \<open>if improved: break\<close>, over the
  values of \<open>i\<close> still to try.
\<close>

fun scan_i :: "int list \<Rightarrow> 'a::{zero,plus,linorder} list list \<Rightarrow> 'a \<Rightarrow> nat list
    \<Rightarrow> py_error + (int list \<times> 'a) option" where
  "scan_i route m best_distance [] = Inr None"
| "scan_i route m best_distance (i # rest) =
     (case scan_j route m best_distance i [i + 1 ..< length route - 1] of
        Inl e \<Rightarrow> Inl e
      | Inr (Some found) \<Rightarrow> Inr (Some found)
      | Inr None \<Rightarrow> scan_i route m best_distance rest)"

text \<open>
  The loop \<open>for iteration in range(max_iterations)\<close>, on the number of iterations left. Its
  state is \<open>best_route\<close>, \<open>best_distance\<close> and \<open>route\<close>; an improving reversal is assigned
  to both \<open>best_route\<close> and \<open>route\<close>, a scan without one is \<open>if not improved: break\<close>.
\<close>

fun two_opt_loop :: "nat \<Rightarrow> 'a::{zero,plus,linorder} list list \<Rightarrow> int list \<Rightarrow> 'a \<Rightarrow> int list
    \<Rightarrow> py_error + int list" where
  "two_opt_loop 0 m best_route best_distance route = Inr best_route"
| "two_opt_loop (Suc k) m best_route best_distance route =
     (case scan_i route m best_distance [1 ..< length route - 2] of
        Inl e \<Rightarrow> Inl e
      | Inr None \<Rightarrow> Inr best_route
      | Inr (Some (new_route, new_distance)) \<Rightarrow>
          two_opt_loop k m new_route new_distance new_route)"

text \<open>
  \<open>range(max_iterations)\<close> is empty for \<open>max_iterations \<le> 0\<close>, which \<open>nat\<close> gives.
  The first call of \<open>calculate_route_distance\<close> is made before the loop.
\<close>

definition two_opt_improvement :: "int list \<Rightarrow> 'a::{zero,plus,linorder} list list \<Rightarrow> int
    \<Rightarrow> py_error + int list" where
  "two_opt_improvement route m max_iterations =
     (case calculate_route_distance route m of
        Inl e \<Rightarrow> Inl e
      | Inr best_distance \<Rightarrow> two_opt_loop (nat max_iterations) m route best_distance route)"

subsection \<open>\<open>nearest_neighbor_tsp\<close>\<close>

text \<open>
  The set \<open>unvisited\<close> is the list of its elements in the order in which CPython iterates
  it: \<open>set(range(n))\<close> holds small non-negative integers, which hash to themselves, so
  the order is ascending and the removal of an element leaves the order of the others.
  \<open>unvisited.remove(x)\<close> raises \<open>KeyError\<close> when \<open>x\<close> is not in the set.
\<close>

definition set_remove :: "int list \<Rightarrow> int \<Rightarrow> py_error + int list" where
  "set_remove s x = (if x \<in> set s then Inr (remove1 x s) else Inl KeyError)"

text \<open>
  \<open>min(iterable, key=f)\<close>: the key of the first element is computed, then every later
  element replaces the candidate when its key is strictly smaller, so among equal keys
  the first one met wins. An empty iterable raises \<open>ValueError\<close>; an exception of the
  key function propagates.
\<close>

fun min_scan :: "(int \<Rightarrow> py_error + 'a::linorder) \<Rightarrow> int \<Rightarrow> 'a \<Rightarrow> int list \<Rightarrow> py_error + int" where
  "min_scan key best best_key [] = Inr best"
| "min_scan key best best_key (x # xs) =
     (case key x of
        Inl e \<Rightarrow> Inl e
      | Inr k \<Rightarrow> if k < best_key then min_scan key x k xs else min_scan key best best_key xs)"

definition py_min :: "(int \<Rightarrow> py_error + 'a::linorder) \<Rightarrow> int list \<Rightarrow> py_error + int" where
  "py_min key xs =
     (case xs of
        [] \<Rightarrow> Inl ValueError
      | x # rest \<Rightarrow> (case key x of Inl e \<Rightarrow> Inl e | Inr k \<Rightarrow> min_scan key x k rest))"

text \<open>
  The loop \<open>while unvisited\<close>; the key of \<open>min\<close> is
  \<open>lambda x: distance_matrix[current][x]\<close>.
\<close>

function nn_loop :: "'a::linorder list list \<Rightarrow> int \<Rightarrow> int list \<Rightarrow> int list \<Rightarrow> py_error + int list" where
  "nn_loop m current route unvisited =
     (if unvisited = [] then Inr route
      else case py_min (\<lambda>x. matrix_get m current x) unvisited of
        Inl e \<Rightarrow> Inl e
      | Inr nearest \<Rightarrow>
          (case set_remove unvisited nearest of
             Inl e \<Rightarrow> Inl e
           | Inr unvisited' \<Rightarrow> nn_loop m nearest (route @ [nearest]) unvisited'))"
  by pat_completeness auto
termination
  by (relation "measure (\<lambda>(m, current, route, unvisited). length unvisited)")
     (auto simp: set_remove_def length_remove1 split: if_splits)

definition nearest_neighbor_tsp :: "'a::linorder list list \<Rightarrow> int \<Rightarrow> py_error + int list" where
  "nearest_neighbor_tsp m start_idx =
     (let n = length m; unvisited = map int [0 ..< n] in
      case set_remove unvisited start_idx of
        Inl e \<Rightarrow> Inl e
      | Inr unvisited' \<Rightarrow>
          (case nn_loop m start_idx [start_idx] unvisited' of
             Inl e \<Rightarrow> Inl e
           | Inr route \<Rightarrow> Inr (route @ [start_idx])))"

subsection \<open>\<open>calculate_distance\<close>\<close>

text \<open>
  The Haversine formula is computed in doubles through \<open>math.radians\<close>, \<open>math.sin\<close>,
  \<open>math.cos\<close>, \<open>math.sqrt\<close>, \<open>math.atan2\<close> and \<open>** 2\<close>. These rounded operations and
  the doubles \<open>2.0\<close> and \<open>6371.0\<close> are the fields of a record, so that the function is
  embedded for every way of rounding; \<open>+\<close>, \<open>-\<close>, \<open>*\<close>, \<open>/\<close>, \<open>0\<close>, \<open>1\<close> and the order
  are those of the type. \<open>m_sqrt\<close> is the root of an argument that is not negative.
\<close>

record 'a math_ops =
  m_radians :: "'a \<Rightarrow> 'a"
  m_sin :: "'a \<Rightarrow> 'a"
  m_cos :: "'a \<Rightarrow> 'a"
  m_sqrt :: "'a \<Rightarrow> 'a"
  m_atan2 :: "'a \<Rightarrow> 'a \<Rightarrow> 'a"
  m_pow2 :: "'a \<Rightarrow> 'a"
  m_two :: 'a
  m_radius :: 'a

text \<open>\<open>math.sqrt\<close> raises \<open>ValueError\<close> (math domain error) on a negative argument.\<close>

definition math_sqrt :: "('a::{zero,linorder}) math_ops \<Rightarrow> 'a \<Rightarrow> py_error + 'a" where
  "math_sqrt ops x = (if x < 0 then Inl ValueError else Inr (m_sqrt ops x))"

text \<open>The local \<open>a\<close> of \<open>calculate_distance\<close>.\<close>

definition haversine_a :: "('a::{plus,minus,times,inverse}) math_ops \<Rightarrow> 'a \<Rightarrow> 'a \<Rightarrow> 'a \<Rightarrow> 'a \<Rightarrow> 'a" where
  "haversine_a ops lat1 lon1 lat2 lon2 =
     (let lat1_rad = m_radians ops lat1;
          lon1_rad = m_radians ops lon1;
          lat2_rad = m_radians ops lat2;
          lon2_rad = m_radians ops lon2;
          dlat = lat2_rad - lat1_rad;
          dlon = lon2_rad - lon1_rad
      in m_pow2 ops (m_sin ops (dlat / m_two ops))
         + m_cos ops lat1_rad * m_cos ops lat2_rad * m_pow2 ops (m_sin ops (dlon / m_two ops)))"

text \<open>
  \<open>c = 2 * math.atan2(math.sqrt(a), math.sqrt(1 - a)); return R * c\<close>: the two roots are
  taken from left to right, and each can raise.
\<close>

definition calculate_distance :: "('a::{zero,one,plus,minus,times,inverse,linorder}) math_ops
    \<Rightarrow> 'a \<Rightarrow> 'a \<Rightarrow> 'a \<Rightarrow> 'a \<Rightarrow> py_error + 'a" where
  "calculate_distance ops lat1 lon1 lat2 lon2 =
     (let a = haversine_a ops lat1 lon1 lat2 lon2 in
      case math_sqrt ops a of
        Inl e \<Rightarrow> Inl e
      | Inr y \<Rightarrow>
          (case math_sqrt ops (1 - a) of
             Inl e \<Rightarrow> Inl e
           | Inr x \<Rightarrow> Inr (m_radius ops * (m_two ops * m_atan2 ops y x))))"

subsection \<open>\<open>create_distance_matrix\<close>\<close>

text \<open>
  The functions that call \<open>calculate_distance\<close> take what the call does, a distance or
  an exception, as their parameter \<open>gd\<close>; in the program \<open>gd\<close> is
  \<open>calculate_distance ops\<close> for the operations of the machine.
\<close>

type_synonym 'a geo = "'a \<Rightarrow> 'a \<Rightarrow> 'a \<Rightarrow> 'a \<Rightarrow> py_error + 'a"

text \<open>
  \<open>np.zeros((n, n))\<close>, then the loops \<open>for i in range(n)\<close> and \<open>for j in range(n)\<close>
  assign every entry with \<open>i != j\<close>; the first call that raises ends the construction.
  \<open>matrix_row\<close> is the inner loop over the values of \<open>j\<close> still to come and returns the
  entries of row \<open>i\<close> from there on, \<open>matrix_rows\<close> is the outer loop.
\<close>

fun matrix_row :: "'a::zero geo \<Rightarrow> ('a \<times> 'a) list \<Rightarrow> nat \<Rightarrow> nat list \<Rightarrow> py_error + 'a list" where
  "matrix_row gd locations i [] = Inr []"
| "matrix_row gd locations i (j # js) =
     (case (if i \<noteq> j
            then gd (fst (locations ! i)) (snd (locations ! i))
                    (fst (locations ! j)) (snd (locations ! j))
            else Inr 0) of
        Inl e \<Rightarrow> Inl e
      | Inr d \<Rightarrow>
          (case matrix_row gd locations i js of
             Inl e \<Rightarrow> Inl e
           | Inr row \<Rightarrow> Inr (d # row)))"

fun matrix_rows :: "'a::zero geo \<Rightarrow> ('a \<times> 'a) list \<Rightarrow> nat list \<Rightarrow> py_error + 'a list list" where
  "matrix_rows gd locations [] = Inr []"
| "matrix_rows gd locations (i # rest) =
     (case matrix_row gd locations i [0 ..< length locations] of
        Inl e \<Rightarrow> Inl e
      | Inr row \<Rightarrow>
          (case matrix_rows gd locations rest of
             Inl e \<Rightarrow> Inl e
           | Inr rows \<Rightarrow> Inr (row # rows)))"

definition create_distance_matrix :: "'a::zero geo \<Rightarrow> ('a \<times> 'a) list \<Rightarrow> py_error + 'a list list" where
  "create_distance_matrix gd locations = matrix_rows gd locations [0 ..< length locations]"

subsection \<open>The tables: collection rows, depots, prices\<close>

text \<open>
  A data frame is the list of its rows, with the default \<open>RangeIndex\<close> that
  \<open>pd.read_csv\<close> gives, so that the label of a row is its position. The coordinate
  columns of the depot table carry the prefix \<open>Depot_\<close> (a field name belongs to one
  record type).
\<close>

record 'a collection =
  Day :: string
  Location :: string
  Material :: string
  Estimated_Weight_kg :: 'a
  Latitude :: 'a
  Longitude :: 'a

record 'a depot_row =
  Depot :: string
  Depot_Latitude :: 'a
  Depot_Longitude :: 'a

type_synonym 'a price_table = "(string \<times> 'a) list"

subsection \<open>\<open>select_optimal_depot\<close>\<close>

text \<open>The inner loop: \<open>total_dist = 0; for _, collection in day_data.iterrows(): total_dist += dist\<close>.\<close>

fun depot_total :: "'a::{zero,plus} geo \<Rightarrow> 'a depot_row \<Rightarrow> 'a collection list \<Rightarrow> 'a
    \<Rightarrow> py_error + 'a" where
  "depot_total gd dep [] total_dist = Inr total_dist"
| "depot_total gd dep (c # cs) total_dist =
     (case gd (Depot_Latitude dep) (Depot_Longitude dep) (Latitude c) (Longitude c) of
        Inl e \<Rightarrow> Inl e
      | Inr d \<Rightarrow> depot_total gd dep cs (total_dist + d))"

text \<open>
  \<open>min_total_distance\<close> starts as \<open>float('inf')\<close>, which is \<open>None\<close> here: every distance
  of the model is below it.
\<close>

fun below :: "'a::linorder \<Rightarrow> 'a option \<Rightarrow> bool" where
  "below x None = True"
| "below x (Some y) = (x < y)"

text \<open>
  The loop \<open>for idx, depot in depots.iterrows()\<close> over the rows still to visit; its state
  is \<open>best_depot_idx\<close> and \<open>min_total_distance\<close>.
\<close>

fun depot_scan :: "'a::{zero,plus,linorder} geo \<Rightarrow> 'a collection list \<Rightarrow> (nat \<times> 'a depot_row) list
    \<Rightarrow> nat \<Rightarrow> 'a option \<Rightarrow> py_error + nat" where
  "depot_scan gd day_data [] best_depot_idx min_total_distance = Inr best_depot_idx"
| "depot_scan gd day_data ((idx, dep) # rest) best_depot_idx min_total_distance =
     (case depot_total gd dep day_data 0 of
        Inl e \<Rightarrow> Inl e
      | Inr total_dist \<Rightarrow>
          if below total_dist min_total_distance
          then depot_scan gd day_data rest idx (Some total_dist)
          else depot_scan gd day_data rest best_depot_idx min_total_distance)"

text \<open>\<open>depots.iloc[best_depot_idx]\<close> raises \<open>IndexError\<close> on a table without rows.\<close>

definition select_optimal_depot :: "'a::{zero,plus,linorder} geo \<Rightarrow> 'a collection list
    \<Rightarrow> 'a depot_row list \<Rightarrow> py_error + (nat \<times> 'a depot_row)" where
  "select_optimal_depot gd day_data depots =
     (case depot_scan gd day_data (zip [0 ..< length depots] depots) 0 None of
        Inl e \<Rightarrow> Inl e
      | Inr best_depot_idx \<Rightarrow>
          (case py_index depots (int best_depot_idx) of
             Inl e \<Rightarrow> Inl e
           | Inr dep \<Rightarrow> Inr (best_depot_idx, dep)))"

subsection \<open>\<open>optimize_weekly_routes\<close>\<close>

text \<open>
  \<open>day_data.merge(prices, on='Material', how='left')\<close>, reduced to the two columns that
  are read afterwards, \<open>Estimated_Weight_kg\<close> and \<open>Price_per_kg\<close>: a collection row is
  paired with every price row of its material, in the order of the price table, and a
  row whose material the table does not hold is kept once with a missing price.
\<close>

definition merge_prices :: "'a collection list \<Rightarrow> 'a price_table \<Rightarrow> ('a \<times> 'a option) list" where
  "merge_prices day_data prices =
     concat (map (\<lambda>row.
       case filter (\<lambda>(material, price). material = Material row) prices of
         [] \<Rightarrow> [(Estimated_Weight_kg row, None)]
       | matches \<Rightarrow> map (\<lambda>(material, price). (Estimated_Weight_kg row, Some price)) matches)
       day_data)"

text \<open>
  \<open>Series.sum()\<close> with its default \<open>skipna=True\<close>: missing values are left out, and the
  sum of no value is \<open>0\<close>. A product with a missing factor is missing.
\<close>

fun series_sum :: "'a::{zero,plus} option list \<Rightarrow> 'a \<Rightarrow> 'a" where
  "series_sum [] acc = acc"
| "series_sum (None # xs) acc = series_sum xs acc"
| "series_sum (Some x # xs) acc = series_sum xs (acc + x)"

definition total_revenue_of :: "'a::{zero,plus,times} collection list \<Rightarrow> 'a price_table \<Rightarrow> 'a" where
  "total_revenue_of day_data prices =
     series_sum (map (\<lambda>(w, price). map_option (\<lambda>p. w * p) price) (merge_prices day_data prices)) 0"

definition total_weight_of :: "'a::{zero,plus} collection list \<Rightarrow> 'a" where
  "total_weight_of day_data = series_sum (map (\<lambda>row. Some (Estimated_Weight_kg row)) day_data) 0"

text \<open>The operator \<open>/\<close>, which raises \<open>ZeroDivisionError\<close> on a zero divisor.\<close>

definition py_div :: "'a::{zero,inverse} \<Rightarrow> 'a \<Rightarrow> py_error + 'a" where
  "py_div a b = (if b = 0 then Inl ZeroDivisionError else Inr (a / b))"

text \<open>\<open>total_revenue / total_distance if total_distance > 0 else 0\<close>\<close>

definition efficiency_of :: "'a::{zero,inverse,linorder} \<Rightarrow> 'a \<Rightarrow> py_error + 'a" where
  "efficiency_of total_revenue total_distance =
     (if total_distance > 0 then py_div total_revenue total_distance else Inr 0)"

text \<open>
  The two lines under \<open># Solve TSP\<close>. The call of \<open>two_opt_improvement\<close> passes no
  \<open>max_iterations\<close>, so the default of the signature, \<open>1000\<close>, is the budget.
\<close>

definition solve_tsp :: "'a::{zero,plus,linorder} list list \<Rightarrow> py_error + int list" where
  "solve_tsp dist_matrix =
     (case nearest_neighbor_tsp dist_matrix 0 of
        Inl e \<Rightarrow> Inl e
      | Inr initial_route \<Rightarrow> two_opt_improvement initial_route dist_matrix 1000)"

text \<open>The value stored under \<open>results[day]\<close>; the fields are the keys of the dictionary.\<close>

record 'a day_result =
  res_route :: "int list"
  res_locations :: "('a \<times> 'a) list"
  res_distance :: 'a
  res_weight :: 'a
  res_revenue :: 'a
  res_depot :: "'a depot_row"
  res_collections :: "'a collection list"
  res_efficiency :: 'a

text \<open>The body of the loop over the days, for the rows \<open>day_data\<close> of one day.\<close>

definition optimize_day :: "'a::{zero,plus,times,inverse,linorder} geo \<Rightarrow> 'a collection list
    \<Rightarrow> 'a depot_row list \<Rightarrow> 'a price_table \<Rightarrow> py_error + 'a day_result" where
  "optimize_day gd day_data depots prices =
     (case select_optimal_depot gd day_data depots of
        Inl e \<Rightarrow> Inl e
      | Inr (best_depot_idx, depot_info) \<Rightarrow>
     (let locations = (Depot_Latitude depot_info, Depot_Longitude depot_info)
                        # map (\<lambda>row. (Latitude row, Longitude row)) day_data in
      case create_distance_matrix gd locations of
        Inl e \<Rightarrow> Inl e
      | Inr dist_matrix \<Rightarrow>
     (case solve_tsp dist_matrix of
        Inl e \<Rightarrow> Inl e
      | Inr optimized_route \<Rightarrow>
     (case calculate_route_distance optimized_route dist_matrix of
        Inl e \<Rightarrow> Inl e
      | Inr total_distance \<Rightarrow>
     (let total_weight = total_weight_of day_data;
          total_revenue = total_revenue_of day_data prices in
      case efficiency_of total_revenue total_distance of
        Inl e \<Rightarrow> Inl e
      | Inr eff \<Rightarrow>
          Inr \<lparr>res_route = optimized_route, res_locations = locations,
               res_distance = total_distance, res_weight = total_weight,
               res_revenue = total_revenue, res_depot = depot_info,
               res_collections = day_data, res_efficiency = eff\<rparr>)))))"

text \<open>\<open>Series.unique()\<close>: the values in the order of their first appearance.\<close>

fun unique :: "'b list \<Rightarrow> 'b list" where
  "unique [] = []"
| "unique (x # xs) = x # unique (filter (\<lambda>y. y \<noteq> x) xs)"

text \<open>
  The loop \<open>for day in weekly_data['Day'].unique()\<close>. The dictionary \<open>results\<close> is the
  list of its items in insertion order; the days are distinct, so an assignment
  \<open>results[day] = ...\<close> adds an item. An exception ends the whole call.
\<close>

fun weekly_loop :: "'a::{zero,plus,times,inverse,linorder} geo \<Rightarrow> 'a collection list
    \<Rightarrow> 'a depot_row list \<Rightarrow> 'a price_table \<Rightarrow> string list \<Rightarrow> (string \<times> 'a day_result) list
    \<Rightarrow> py_error + (string \<times> 'a day_result) list" where
  "weekly_loop gd weekly_data depots prices [] results = Inr results"
| "weekly_loop gd weekly_data depots prices (day # days) results =
     (let day_data = filter (\<lambda>row. Day row = day) weekly_data in
      if length day_data = 0 then weekly_loop gd weekly_data depots prices days results
      else case optimize_day gd day_data depots prices of
        Inl e \<Rightarrow> Inl e
      | Inr res \<Rightarrow> weekly_loop gd weekly_data depots prices days (results @ [(day, res)]))"

definition optimize_weekly_routes :: "'a::{zero,plus,times,inverse,linorder} geo
    \<Rightarrow> 'a collection list \<Rightarrow> 'a depot_row list \<Rightarrow> 'a price_table
    \<Rightarrow> py_error + (string \<times> 'a day_result) list" where
  "optimize_weekly_routes gd weekly_data depots prices =
     weekly_loop gd weekly_data depots prices (unique (map Day weekly_data)) []"

subsection \<open>The optimization level\<close>

text \<open>The entry \<open>"iterations"\<close> of \<open>OPTIMIZATION_LEVELS\<close> in \<open>config.py\<close>.\<close>

definition OPTIMIZATION_LEVELS :: "(string \<times> int) list" where
  "OPTIMIZATION_LEVELS =
     [(''Basic (Nearest Neighbor)'', 0), (''Advanced (2-Opt)'', 1000),
      (''Premium (Multi-iteration)'', 5000)]"

text \<open>
  The part of \<open>main\<close> between the sidebar and the display: \<open>optimization_level\<close> is the
  choice of the select box, \<open>selected_days\<close> that of the multiselect. Without a row for
  the selected days \<open>main\<close> returns after a warning and there are no results, which is
  \<open>None\<close>.
\<close>

definition main_results :: "'a::{zero,plus,times,inverse,linorder} geo \<Rightarrow> string \<Rightarrow> string list
    \<Rightarrow> 'a collection list \<Rightarrow> 'a depot_row list \<Rightarrow> 'a price_table
    \<Rightarrow> py_error + (string \<times> 'a day_result) list option" where
  "main_results gd optimization_level selected_days weekly_routes depot_locations material_prices =
     (let filtered_data = filter (\<lambda>row. Day row \<in> set selected_days) weekly_routes in
      if length filtered_data = 0 then Inr None
      else case optimize_weekly_routes gd filtered_data depot_locations material_prices of
        Inl e \<Rightarrow> Inl e
      | Inr results \<Rightarrow> Inr (Some results))"

section \<open>Well-formed inputs\<close>

text \<open>
  A distance matrix is square; an index is one that \<open>distance_matrix[i]\<close> accepts; a tour
  over \<open>n \<ge> 1\<close> locations starts and ends at the depot, index \<open>0\<close>, has \<open>n + 1\<close>
  entries, and between its ends holds every other index \<open>1, \<dots>, n - 1\<close> exactly once.
\<close>

definition square :: "'a list list \<Rightarrow> bool" where
  "square m = list_all (\<lambda>row. length row = length m) m"

definition indices_ok :: "'a list list \<Rightarrow> int list \<Rightarrow> bool" where
  "indices_ok m t = list_all (\<lambda>i. - int (length m) \<le> i \<and> i < int (length m)) t"

definition is_tour :: "nat \<Rightarrow> int list \<Rightarrow> bool" where
  "is_tour n t = (1 \<le> n \<and> length t = n + 1 \<and> hd t = 0 \<and> last t = 0
                  \<and> mset (butlast (tl t)) = mset (map int [1 ..< n]))"

text \<open>
  The points between which a pass over a day can ask for a distance, the depots and the
  collection points, and the condition that \<open>gd\<close> returns a distance for every two of
  them.
\<close>

definition planning_points :: "'a depot_row list \<Rightarrow> 'a collection list \<Rightarrow> ('a \<times> 'a) list" where
  "planning_points depots day_data =
     map (\<lambda>dep. (Depot_Latitude dep, Depot_Longitude dep)) depots
     @ map (\<lambda>row. (Latitude row, Longitude row)) day_data"

definition distances_defined :: "'a geo \<Rightarrow> ('a \<times> 'a) list \<Rightarrow> bool" where
  "distances_defined gd pts =
     list_all (\<lambda>p. list_all (\<lambda>q.
       case gd (fst p) (snd p) (fst q) (snd q) of Inl e \<Rightarrow> False | Inr d \<Rightarrow> True) pts) pts"

text \<open>
  Laws of the rounded operations on finite doubles, the two zeros taken as one value:
  a difference of equal numbers is \<open>0\<close>, exchanging the operands of a difference
  changes its sign, halving commutes with the sign, the sine is odd and \<open>0\<close> at \<open>0\<close>,
  a square does not depend on the sign, the product is commutative and \<open>0\<close> with a
  factor \<open>0\<close>, and \<open>sqrt(0) = 0\<close>, \<open>sqrt(1) = 1\<close>, \<open>atan2(0, 1) = 0\<close>.
\<close>

definition double_laws :: "('a::{zero,one,plus,minus,uminus,times,inverse,linorder}) math_ops \<Rightarrow> bool" where
  "double_laws ops =
     ((\<forall>x::'a. x - x = 0) \<and> (\<forall>x y::'a. y - x = - (x - y))
      \<and> (\<forall>z. (- z) / m_two ops = - (z / m_two ops)) \<and> 0 / m_two ops = 0
      \<and> m_sin ops 0 = 0 \<and> (\<forall>w. m_sin ops (- w) = - m_sin ops w)
      \<and> m_pow2 ops 0 = 0 \<and> (\<forall>v. m_pow2 ops (- v) = m_pow2 ops v)
      \<and> (\<forall>u v::'a. u * v = v * u) \<and> (\<forall>u::'a. u * 0 = 0)
      \<and> (0::'a) + 0 = 0 \<and> (1::'a) - 0 = 1 \<and> (0::'a) < 1
      \<and> m_sqrt ops 0 = 0 \<and> m_sqrt ops 1 = 1 \<and> m_atan2 ops 0 1 = 0)"

section \<open>Example instances\<close>

text \<open>
  A depot at \<open>(0, 0)\<close> and three stops on the equator, at the longitudes \<open>1\<close>, \<open>-1.4\<close> and
  \<open>4\<close>. On the equator the great-circle distance is proportional to the difference of
  the longitudes; \<open>equator_matrix\<close> holds these differences in tenths of a degree.
\<close>

definition equator_matrix :: "real list list" where
  "equator_matrix = [[0, 10, 14, 40], [10, 0, 24, 30], [14, 24, 0, 54], [40, 30, 54, 0]]"

text \<open>
  The distance function of the examples. Between equal coordinates it is \<open>0\<close>, as the
  Haversine formula is (\<open>dlat = dlon = 0\<close>, so \<open>a = 0\<close> and \<open>c = 0\<close>); between two
  points of the equator it is the difference of their longitudes in degrees, the
  great-circle distance in units of one degree of arc. Elsewhere it is one distance
  function among all those that the statements about \<open>gd\<close> cover.
\<close>

definition flat_distance :: "real geo" where
  "flat_distance lat1 lon1 lat2 lon2 = Inr (\<bar>lat2 - lat1\<bar> + \<bar>lon2 - lon1\<bar>)"

definition depot_origin :: "real depot_row" where
  "depot_origin = \<lparr>Depot = ''Origin'', Depot_Latitude = 0, Depot_Longitude = 0\<rparr>"

definition depot_far :: "real depot_row" where
  "depot_far = \<lparr>Depot = ''Far'', Depot_Latitude = 5, Depot_Longitude = 5\<rparr>"

definition depot_east :: "real depot_row" where
  "depot_east = \<lparr>Depot = ''East'', Depot_Latitude = 0, Depot_Longitude = 10\<rparr>"

text \<open>
  Three stops of which the first is nearest to the depot at the origin, while the sum
  over the three is smaller from the depot in the east (\<open>1 + 9 + 10\<close> against
  \<open>9 + 1 + 0\<close>).
\<close>

definition three_stops :: "real collection list" where
  "three_stops =
     [\<lparr>Day = ''Monday'', Location = ''Near'', Material = ''Paper'',
       Estimated_Weight_kg = 10, Latitude = 0, Longitude = 1\<rparr>,
      \<lparr>Day = ''Monday'', Location = ''Next'', Material = ''Paper'',
       Estimated_Weight_kg = 10, Latitude = 0, Longitude = 9\<rparr>,
      \<lparr>Day = ''Monday'', Location = ''Gate'', Material = ''Paper'',
       Estimated_Weight_kg = 10, Latitude = 0, Longitude = 10\<rparr>]"

text \<open>
  A coarse arithmetic that satisfies \<open>double_laws\<close>: the sine is the identity, the
  cosine is \<open>1\<close>, the square is the absolute value, the root and \<open>atan2\<close> return their
  first argument. With it \<open>a\<close> is the sum of the differences of the latitudes and of
  the longitudes, divided by \<open>200\<close>; it exceeds \<open>1\<close> between points that are far apart,
  as the rounded \<open>a\<close> of the doubles does between antipodal points.
\<close>

definition coarse_ops :: "real math_ops" where
  "coarse_ops = \<lparr>m_radians = (\<lambda>x. x / 100), m_sin = (\<lambda>x. x), m_cos = (\<lambda>x. 1),
      m_sqrt = (\<lambda>x. x), m_atan2 = (\<lambda>y x. y), m_pow2 = (\<lambda>x. \<bar>x\<bar>), m_two = 2,
      m_radius = 100\<rparr>"

definition far_stop :: "real collection" where
  "far_stop = \<lparr>Day = ''Monday'', Location = ''Far side'', Material = ''Paper'',
      Estimated_Weight_kg = 10, Latitude = 0, Longitude = 300\<rparr>"

definition glass_at_depot :: "real collection" where
  "glass_at_depot = \<lparr>Day = ''Monday'', Location = ''Yard'', Material = ''Glass'',
      Estimated_Weight_kg = 10, Latitude = 0, Longitude = 0\<rparr>"

definition paper_stop :: "real collection" where
  "paper_stop = \<lparr>Day = ''Monday'', Location = ''Mill'', Material = ''Paper'',
      Estimated_Weight_kg = 10, Latitude = 0, Longitude = 1\<rparr>"

definition equator_week :: "real collection list" where
  "equator_week =
     [\<lparr>Day = ''Monday'', Location = ''East 1'', Material = ''Paper'',
       Estimated_Weight_kg = 10, Latitude = 0, Longitude = 1\<rparr>,
      \<lparr>Day = ''Monday'', Location = ''West'', Material = ''Paper'',
       Estimated_Weight_kg = 10, Latitude = 0, Longitude = - (7 / 5)\<rparr>,
      \<lparr>Day = ''Monday'', Location = ''East 4'', Material = ''Paper'',
       Estimated_Weight_kg = 10, Latitude = 0, Longitude = 4\<rparr>]"

section \<open>Indexing and route distance\<close>

lemma py_index_ok:
  assumes "- int (length xs) \<le> i" "i < int (length xs)"
  shows "\<exists>x. py_index xs i = Inr x \<and> x \<in> set xs"
  using assms by (auto simp: py_index_def)

lemma py_index_Inr: "py_index xs i = Inr x \<Longrightarrow> - int (length xs) \<le> i \<and> i < int (length xs)"
  by (auto simp: py_index_def split: if_splits)

lemma matrix_get_ok:
  assumes "square m" "- int (length m) \<le> a" "a < int (length m)"
    "- int (length m) \<le> b" "b < int (length m)"
  shows "\<exists>d. matrix_get m a b = Inr d"
proof -
  obtain row where r: "py_index m a = Inr row" "row \<in> set m"
    using py_index_ok [OF assms(2,3)] by blast
  then have "length row = length m" using assms(1) by (simp add: square_def list_all_iff)
  then obtain d where "py_index row b = Inr d" using py_index_ok [of row b] assms(4,5) by auto
  with r show ?thesis by (simp add: matrix_get_def)
qed

lemma route_sum_ok:
  "square m \<Longrightarrow> indices_ok m t \<Longrightarrow> \<exists>d. route_sum m acc t = Inr d"
proof (induction m acc t rule: route_sum.induct)
  case (1 m tot a b rest)
  then obtain d where d: "matrix_get m a b = Inr d"
    using matrix_get_ok [of m a b] by (auto simp: indices_ok_def)
  from 1 have "indices_ok m (b # rest)" by (simp add: indices_ok_def)
  with 1 d show ?case by simp
qed simp_all

lemma calculate_route_distance_ok:
  "square m \<Longrightarrow> indices_ok m t \<Longrightarrow> \<exists>d. calculate_route_distance t m = Inr d"
  by (simp add: calculate_route_distance_def route_sum_ok)

lemma reverse_segment_mset: "i \<le> j \<Longrightarrow> mset (reverse_segment route i j) = mset route"
proof -
  assume ij: "i \<le> j"
  have "drop (j + 1) route = drop (j + 1 - i) (drop i route)" using ij by simp
  then have "mset (reverse_segment route i j)
      = mset (take i route) + (mset (take (j + 1 - i) (drop i route)) + mset (drop (j + 1 - i) (drop i route)))"
    by (simp add: reverse_segment_def)
  also have "\<dots> = mset (take i route) + mset (drop i route)"
    by (metis append_take_drop_id mset_append)
  also have "\<dots> = mset route" by (metis append_take_drop_id mset_append)
  finally show ?thesis .
qed

lemma reverse_segment_length: "i \<le> j \<Longrightarrow> length (reverse_segment route i j) = length route"
  by (metis reverse_segment_mset size_mset)

lemma reverse_segment_set: "i \<le> j \<Longrightarrow> set (reverse_segment route i j) = set route"
  by (metis reverse_segment_mset set_mset_mset)

lemma reverse_segment_hd: "0 < i \<Longrightarrow> route \<noteq> [] \<Longrightarrow> hd (reverse_segment route i j) = hd route"
  by (cases route) (auto simp: reverse_segment_def take_Cons')

lemma reverse_segment_last: "j + 1 < length route \<Longrightarrow> last (reverse_segment route i j) = last route"
  by (simp add: reverse_segment_def last_drop)

lemma indices_ok_reverse_segment: "i \<le> j \<Longrightarrow> indices_ok m route \<Longrightarrow> indices_ok m (reverse_segment route i j)"
  by (simp add: indices_ok_def list_all_iff reverse_segment_set)

lemma scan_j_found:
  "scan_j route m bd i js = Inr (Some (nr, nd)) \<Longrightarrow>
     nd < bd \<and> calculate_route_distance nr m = Inr nd \<and> (\<exists>j\<in>set js. nr = reverse_segment route i j)"
  by (induction js) (auto simp: Let_def split: sum.splits if_splits)

lemma scan_i_found:
  "scan_i route m bd is = Inr (Some (nr, nd)) \<Longrightarrow>
     nd < bd \<and> calculate_route_distance nr m = Inr nd \<and>
     (\<exists>i\<in>set is. \<exists>j. i < j \<and> j + 1 < length route \<and> nr = reverse_segment route i j)"
proof (induction "is")
  case Nil
  then show ?case by simp
next
  case (Cons i rest)
  show ?case
  proof (cases "scan_j route m bd i [i + 1 ..< length route - 1]")
    case (Inl e)
    with Cons.prems show ?thesis by simp
  next
    case (Inr r)
    show ?thesis
    proof (cases r)
      case None
      with Inr Cons show ?thesis by auto
    next
      case (Some found)
      with Inr Cons.prems have "scan_j route m bd i [i + 1 ..< length route - 1] = Inr (Some (nr, nd))"
        by simp
      from scan_j_found [OF this] obtain j where "nd < bd" "calculate_route_distance nr m = Inr nd"
        "j \<in> set [i + 1 ..< length route - 1]" "nr = reverse_segment route i j" by blast
      moreover from this have "i < j" "j + 1 < length route" by auto
      ultimately show ?thesis by (intro conjI bexI [of _ i] exI [of _ j]) simp_all
    qed
  qed
qed

lemma scan_j_ok:
  "square m \<Longrightarrow> indices_ok m route \<Longrightarrow> \<forall>j\<in>set js. i \<le> j \<Longrightarrow> \<exists>r. scan_j route m bd i js = Inr r"
proof (induction js)
  case Nil
  then show ?case by simp
next
  case (Cons j js)
  then have "indices_ok m (reverse_segment route i j)" by (simp add: indices_ok_reverse_segment)
  then obtain d where "calculate_route_distance (reverse_segment route i j) m = Inr d"
    using calculate_route_distance_ok Cons.prems(1) by blast
  with Cons show ?case by (simp add: Let_def)
qed

lemma scan_i_ok:
  "square m \<Longrightarrow> indices_ok m route \<Longrightarrow> \<exists>r. scan_i route m bd is = Inr r"
proof (induction "is")
  case Nil
  then show ?case by simp
next
  case (Cons i rest)
  obtain r where "scan_j route m bd i [i + 1 ..< length route - 1] = Inr r"
    using scan_j_ok [OF Cons.prems, of "[i + 1 ..< length route - 1]" i bd] by auto
  with Cons show ?case by (cases r) auto
qed

lemma two_opt_loop_le:
  "calculate_route_distance best m = Inr bd \<Longrightarrow> two_opt_loop k m best bd route = Inr r \<Longrightarrow>
     \<exists>d. calculate_route_distance r m = Inr d \<and> d \<le> bd"
proof (induction k arbitrary: best bd route)
  case 0
  then show ?case by simp
next
  case (Suc k)
  show ?case
  proof (cases "scan_i route m bd [1 ..< length route - 2]")
    case (Inl e)
    with Suc.prems show ?thesis by simp
  next
    case (Inr found)
    show ?thesis
    proof (cases found)
      case None
      with Inr Suc.prems show ?thesis by simp
    next
      case (Some p)
      obtain nr nd where p: "p = (nr, nd)" by (cases p)
      from scan_i_found Inr Some p have nd: "nd < bd" "calculate_route_distance nr m = Inr nd"
        by blast+
      from Suc.prems Inr Some p have "two_opt_loop k m nr nd nr = Inr r" by simp
      from Suc.IH [OF nd(2) this] nd(1) show ?thesis by auto
    qed
  qed
qed

lemma two_opt_loop_perm:
  "two_opt_loop k m route bd route = Inr r \<Longrightarrow>
     mset r = mset route \<and> hd r = hd route \<and> last r = last route"
proof (induction k arbitrary: bd route)
  case 0
  then show ?case by simp
next
  case (Suc k)
  show ?case
  proof (cases "scan_i route m bd [1 ..< length route - 2]")
    case (Inl e)
    with Suc.prems show ?thesis by simp
  next
    case (Inr found)
    show ?thesis
    proof (cases found)
      case None
      with Inr Suc.prems show ?thesis by simp
    next
      case (Some p)
      obtain nr nd where p: "p = (nr, nd)" by (cases p)
      from scan_i_found Inr Some p obtain i j where ij: "i \<in> set [1 ..< length route - 2]" "i < j"
        "j + 1 < length route" "nr = reverse_segment route i j"
        by blast
      then have ne: "route \<noteq> []" "0 < i" "i \<le> j" by auto
      from Suc.prems Inr Some p have "two_opt_loop k m nr nd nr = Inr r" by simp
      from Suc.IH [OF this] have "mset r = mset nr \<and> hd r = hd nr \<and> last r = last nr" .
      with ij ne show ?thesis
        by (simp add: reverse_segment_mset reverse_segment_hd reverse_segment_last)
    qed
  qed
qed

lemma two_opt_loop_ok:
  "square m \<Longrightarrow> indices_ok m route \<Longrightarrow> \<exists>r. two_opt_loop k m best bd route = Inr r"
proof (induction k arbitrary: best bd route)
  case 0
  then show ?case by simp
next
  case (Suc k)
  obtain found where f: "scan_i route m bd [1 ..< length route - 2] = Inr found"
    using scan_i_ok [OF Suc.prems] by blast
  show ?case
  proof (cases found)
    case None
    with f show ?thesis by simp
  next
    case (Some p)
    obtain nr nd where p: "p = (nr, nd)" by (cases p)
    from scan_i_found f Some p obtain i j where ij: "i < j" "nr = reverse_segment route i j"
      by blast
    then have "indices_ok m nr" using Suc.prems(2) by (simp add: indices_ok_reverse_segment)
    from Suc.IH [OF Suc.prems(1) this] f Some p show ?thesis by simp
  qed
qed

section \<open>Nearest neighbour and tours\<close>

lemma min_scan_mem: "min_scan key best bk xs = Inr r \<Longrightarrow> r = best \<or> r \<in> set xs"
  by (induction xs arbitrary: best bk) (auto split: sum.splits if_splits)

lemma py_min_mem: "py_min key xs = Inr r \<Longrightarrow> r \<in> set xs"
  by (auto simp: py_min_def split: list.splits sum.splits dest: min_scan_mem)

lemma min_scan_ok: "\<forall>x\<in>set xs. \<exists>k. key x = Inr k \<Longrightarrow> \<exists>r. min_scan key best bk xs = Inr r"
proof (induction xs arbitrary: best bk)
  case Nil
  then show ?case by simp
next
  case (Cons x xs)
  then obtain k where "key x = Inr k" by auto
  with Cons show ?case by simp
qed

lemma py_min_ok:
  assumes "xs \<noteq> []" "\<forall>x\<in>set xs. \<exists>k. key x = Inr k"
  shows "\<exists>r. py_min key xs = Inr r"
proof -
  obtain x rest where xs: "xs = x # rest" using assms(1) by (cases xs) auto
  then obtain k where "key x = Inr k" using assms(2) by auto
  moreover have "\<forall>y\<in>set rest. \<exists>k. key y = Inr k" using assms(2) xs by simp
  then have "\<exists>r. min_scan key x k rest = Inr r" by (rule min_scan_ok)
  ultimately show ?thesis using xs by (simp add: py_min_def)
qed

lemma nn_loop_ok:
  "square m \<Longrightarrow> 0 \<le> current \<Longrightarrow> current < int (length m) \<Longrightarrow>
   \<forall>x\<in>set unvisited. 0 \<le> x \<and> x < int (length m) \<Longrightarrow>
   \<exists>p. nn_loop m current route unvisited = Inr (route @ p) \<and> mset p = mset unvisited"
proof (induction m current route unvisited rule: nn_loop.induct)
  case (1 m current route unvisited)
  show ?case
  proof (cases "unvisited = []")
    case True
    then show ?thesis by (subst nn_loop.simps) simp
  next
    case False
    have "\<forall>x\<in>set unvisited. \<exists>k. matrix_get m current x = Inr k"
      using matrix_get_ok [OF "1.prems"(1), of current] "1.prems" by force
    then obtain nearest where n: "py_min (\<lambda>x. matrix_get m current x) unvisited = Inr nearest"
      using py_min_ok [OF False] by blast
    then have mem: "nearest \<in> set unvisited" by (rule py_min_mem)
    then have rem: "set_remove unvisited nearest = Inr (remove1 nearest unvisited)"
      by (simp add: set_remove_def)
    have "\<forall>x\<in>set (remove1 nearest unvisited). 0 \<le> x \<and> x < int (length m)"
      using "1.prems"(4) by (meson notin_set_remove1)
    with "1.IH" [OF False n rem "1.prems"(1)] mem "1.prems"(4)
    obtain p where p: "nn_loop m nearest (route @ [nearest]) (remove1 nearest unvisited)
        = Inr ((route @ [nearest]) @ p)" "mset p = mset (remove1 nearest unvisited)"
      by blast
    have "nn_loop m current route unvisited = Inr (route @ (nearest # p))"
      using False n rem p(1) by (subst nn_loop.simps) simp
    moreover have "mset (nearest # p) = mset unvisited" using p(2) mem by simp
    ultimately show ?thesis by blast
  qed
qed

lemma range_remove_zero: "0 < n \<Longrightarrow> set_remove (map int [0 ..< n]) 0 = Inr (map int [1 ..< n])"
  by (simp add: set_remove_def upt_conv_Cons)

lemma nearest_neighbor_tsp_ok:
  assumes "square m" "m \<noteq> []"
  shows "\<exists>p. nearest_neighbor_tsp m 0 = Inr (0 # p @ [0]) \<and> mset p = mset (map int [1 ..< length m])"
proof -
  have n: "0 < length m" using assms(2) by simp
  have "\<forall>x\<in>set (map int [1 ..< length m]). 0 \<le> x \<and> x < int (length m)" by auto
  from nn_loop_ok [OF assms(1) _ _ this, of 0 "[0]"] n
  obtain p where "nn_loop m 0 [0] (map int [1 ..< length m]) = Inr ([0] @ p)"
    "mset p = mset (map int [1 ..< length m])" by auto
  then show ?thesis using range_remove_zero [OF n] by (simp add: nearest_neighbor_tsp_def)
qed

lemma nearest_neighbor_tsp_empty: "nearest_neighbor_tsp [] 0 = Inl KeyError"
  by (simp add: nearest_neighbor_tsp_def set_remove_def)

lemma is_tour_closed:
  assumes "0 < n" "mset p = mset (map int [1 ..< n])"
  shows "is_tour n (0 # p @ [0])"
proof -
  have "length p = n - 1" using assms(2) by (metis size_mset length_map length_upt)
  then show ?thesis using assms by (simp add: is_tour_def butlast_append)
qed

lemma tour_split:
  assumes "2 \<le> length t"
  shows "t = hd t # butlast (tl t) @ [last t]"
proof -
  from assms obtain a u where t: "t = a # u" by (cases t) auto
  with assms have "u \<noteq> []" by auto
  with t show ?thesis by simp
qed

lemma is_tour_indices_ok:
  assumes "is_tour (length m) t" "m \<noteq> []"
  shows "indices_ok m t"
proof -
  have len: "2 \<le> length t" using assms by (simp add: is_tour_def)
  have "set (butlast (tl t)) = set (map int [1 ..< length m])"
    using assms(1) by (metis is_tour_def set_mset_mset)
  then have mid: "\<forall>x\<in>set (butlast (tl t)). 0 \<le> x \<and> x < int (length m)" by auto
  have "set t = {hd t, last t} \<union> set (butlast (tl t))"
    by (subst tour_split [OF len]) auto
  with mid assms show ?thesis by (auto simp: indices_ok_def list_all_iff is_tour_def)
qed

lemma same_ends_is_tour:
  assumes "is_tour n t" "mset t' = mset t" "hd t' = hd t" "last t' = last t"
  shows "is_tour n t'"
proof -
  have len: "length t' = length t" using assms(2) by (metis size_mset)
  then have l2: "2 \<le> length t" "2 \<le> length t'" using assms(1) by (auto simp: is_tour_def) 
  have "mset t = {#hd t, last t#} + mset (butlast (tl t))"
    by (subst tour_split [OF l2(1)]) simp
  moreover have "mset t' = {#hd t', last t'#} + mset (butlast (tl t'))"
    by (subst tour_split [OF l2(2)]) simp
  ultimately have "mset (butlast (tl t')) = mset (butlast (tl t))" using assms(2,3,4) by simp
  with assms len show ?thesis by (simp add: is_tour_def)
qed

lemma two_opt_improvement_ok:
  assumes "square m" "indices_ok m t"
  shows "\<exists>r. two_opt_improvement t m k = Inr r"
proof -
  obtain d where "calculate_route_distance t m = Inr d"
    using calculate_route_distance_ok [OF assms] by blast
  then show ?thesis using two_opt_loop_ok [OF assms] by (simp add: two_opt_improvement_def)
qed

lemma two_opt_improvement_perm:
  "two_opt_improvement t m k = Inr r \<Longrightarrow> mset r = mset t \<and> hd r = hd t \<and> last r = last t"
  by (auto simp: two_opt_improvement_def split: sum.splits dest: two_opt_loop_perm)

lemma two_opt_improvement_le:
  "two_opt_improvement t m k = Inr r \<Longrightarrow>
     \<exists>d d'. calculate_route_distance t m = Inr d \<and> calculate_route_distance r m = Inr d' \<and> d' \<le> d"
  by (auto simp: two_opt_improvement_def split: sum.splits dest: two_opt_loop_le)

lemma two_opt_improvement_no_budget:
  "k \<le> 0 \<Longrightarrow> two_opt_improvement t m k =
     (case calculate_route_distance t m of Inl e \<Rightarrow> Inl e | Inr d \<Rightarrow> Inr t)"
  by (simp add: two_opt_improvement_def split: sum.splits)

section \<open>Depot selection\<close>

lemma below_trans: "x < y \<Longrightarrow> below y mn \<Longrightarrow> below x mn"
  by (cases mn) auto

lemma not_below_le: "\<not> below y mn \<Longrightarrow> below x mn \<Longrightarrow> x < y"
  by (cases mn) auto

text \<open>The inner loop adds the distances of all the rows, from left to right.\<close>

lemma depot_total_sum:
  "\<forall>c\<in>set cs. gd (Depot_Latitude dep) (Depot_Longitude dep) (Latitude c) (Longitude c) = Inr (g c)
   \<Longrightarrow> depot_total gd dep cs acc = Inr (foldl (+) acc (map g cs))"
  by (induction cs arbitrary: acc) auto

lemma depot_total_raises:
  "\<exists>c\<in>set cs. \<exists>e. gd (Depot_Latitude dep) (Depot_Longitude dep) (Latitude c) (Longitude c) = Inl e
   \<Longrightarrow> \<exists>e. depot_total gd dep cs acc = Inl e"
proof (induction cs arbitrary: acc)
  case Nil
  then show ?case by simp
next
  case (Cons c cs)
  show ?case
  proof (cases "gd (Depot_Latitude dep) (Depot_Longitude dep) (Latitude c) (Longitude c)")
    case (Inl e)
    then show ?thesis by simp
  next
    case (Inr d)
    with Cons.prems have "\<exists>c\<in>set cs. \<exists>e.
        gd (Depot_Latitude dep) (Depot_Longitude dep) (Latitude c) (Longitude c) = Inl e" by auto
    from Cons.IH [OF this] Inr show ?thesis by simp
  qed
qed

lemma depot_total_error:
  "depot_total gd dep cs acc = Inl e \<Longrightarrow> \<exists>a b c d. gd a b c d = Inl e"
  by (induction cs arbitrary: acc) (auto split: sum.splits)

lemma depot_scan_raises:
  "\<exists>p\<in>set es. \<exists>e. depot_total gd (snd p) day 0 = Inl e \<Longrightarrow> \<exists>e. depot_scan gd day es b mn = Inl e"
proof (induction es arbitrary: b mn)
  case Nil
  then show ?case by simp
next
  case (Cons p rest)
  obtain idx dep where p: "p = (idx, dep)" by (cases p)
  show ?case
  proof (cases "depot_total gd dep day 0")
    case (Inl e)
    with p show ?thesis by simp
  next
    case (Inr t)
    with Cons.prems p have "\<exists>p\<in>set rest. \<exists>e. depot_total gd (snd p) day 0 = Inl e" by auto
    from Cons.IH [OF this] Inr p show ?thesis by simp
  qed
qed

lemma depot_scan_error:
  "depot_scan gd day es b mn = Inl e \<Longrightarrow> \<exists>a b c d. gd a b c d = Inl e"
proof (induction es arbitrary: b mn)
  case Nil
  then show ?case by simp
next
  case (Cons p rest)
  obtain idx dep where p: "p = (idx, dep)" by (cases p)
  show ?case
  proof (cases "depot_total gd dep day 0")
    case (Inl e')
    with Cons.prems p have "depot_total gd dep day 0 = Inl e" by simp
    then show ?thesis by (rule depot_total_error)
  next
    case (Inr t)
    with Cons.prems p Cons.IH show ?thesis by (auto split: if_splits)
  qed
qed

lemma depot_scan_spec:
  assumes "\<forall>p\<in>set es. depot_total gd (snd p) day 0 = Inr (T (snd p))"
  shows "if \<exists>p\<in>set es. below (T (snd p)) mn
   then \<exists>k<length es. depot_scan gd day es b mn = Inr (fst (es ! k))
          \<and> below (T (snd (es ! k))) mn
          \<and> (\<forall>j<length es. T (snd (es ! k)) \<le> T (snd (es ! j)))
          \<and> (\<forall>j<k. T (snd (es ! k)) < T (snd (es ! j)))
   else depot_scan gd day es b mn = Inr b"
  using assms
proof (induction es arbitrary: b mn)
  case Nil
  then show ?case by simp
next
  case (Cons e rest)
  obtain idx dep where e: "e = (idx, dep)" by (cases e)
  have tot: "depot_total gd dep day 0 = Inr (T dep)" using Cons.prems e by simp
  have rest: "\<forall>p\<in>set rest. depot_total gd (snd p) day 0 = Inr (T (snd p))"
    using Cons.prems by simp
  show ?case
  proof (cases "below (T dep) mn")
    case True
    note IH = Cons.IH [OF rest, of "Some (T dep)" idx]
    have step: "depot_scan gd day (e # rest) b mn = depot_scan gd day rest idx (Some (T dep))"
      using True e tot by simp
    have ex: "\<exists>x\<in>set (e # rest). below (T (snd x)) mn" using True e by auto
    show ?thesis
    proof (cases "\<exists>p\<in>set rest. below (T (snd p)) (Some (T dep))")
      case False
      with IH have r: "depot_scan gd day rest idx (Some (T dep)) = Inr idx" by simp
      from False have "\<forall>j<length rest. T dep \<le> T (snd (rest ! j))"
        by (metis below.simps(2) not_le_imp_less nth_mem)
      then have 3: "\<forall>j<length (e # rest). T (snd ((e # rest) ! 0)) \<le> T (snd ((e # rest) ! j))"
        using e by (auto simp: nth_Cons')
      have 1: "depot_scan gd day (e # rest) b mn = Inr (fst ((e # rest) ! 0))"
        using step r e by simp
      have 2: "below (T (snd ((e # rest) ! 0))) mn" using True e by simp
      have 4: "\<forall>j<0. T (snd ((e # rest) ! 0)) < T (snd ((e # rest) ! j))" by simp
      have "0 < length (e # rest)" by simp
      with ex 1 2 3 4 show ?thesis by (metis (no_types, lifting))
    next
      case True
      with IH obtain k where k: "k < length rest"
        "depot_scan gd day rest idx (Some (T dep)) = Inr (fst (rest ! k))"
        "T (snd (rest ! k)) < T dep"
        "\<forall>j<length rest. T (snd (rest ! k)) \<le> T (snd (rest ! j))"
        "\<forall>j<k. T (snd (rest ! k)) < T (snd (rest ! j))"
        by auto
      have 1: "depot_scan gd day (e # rest) b mn = Inr (fst ((e # rest) ! Suc k))"
        using step k(2) by simp
      have 2: "below (T (snd ((e # rest) ! Suc k))) mn"
        using below_trans [OF k(3) \<open>below (T dep) mn\<close>] by simp
      have 3: "\<forall>j<length (e # rest). T (snd ((e # rest) ! Suc k)) \<le> T (snd ((e # rest) ! j))"
        using k(3,4) e by (auto simp: nth_Cons')
      have 4: "\<forall>j<Suc k. T (snd ((e # rest) ! Suc k)) < T (snd ((e # rest) ! j))"
        using k(3,5) e by (auto simp: nth_Cons' less_Suc_eq_0_disj)
      have "Suc k < length (e # rest)" using k(1) by simp
      with ex 1 2 3 4 show ?thesis by (metis (no_types, lifting))
    qed
  next
    case False
    note IH = Cons.IH [OF rest, of mn b]
    have step: "depot_scan gd day (e # rest) b mn = depot_scan gd day rest b mn"
      using False e tot by simp
    show ?thesis
    proof (cases "\<exists>p\<in>set rest. below (T (snd p)) mn")
      case nex: False
      with IH have "depot_scan gd day rest b mn = Inr b" by simp
      moreover have "\<not> (\<exists>x\<in>set (e # rest). below (T (snd x)) mn)" using nex False e by auto
      ultimately show ?thesis using step by (metis (no_types, lifting))
    next
      case ex: True
      with IH obtain k where k: "k < length rest"
        "depot_scan gd day rest b mn = Inr (fst (rest ! k))"
        "below (T (snd (rest ! k))) mn"
        "\<forall>j<length rest. T (snd (rest ! k)) \<le> T (snd (rest ! j))"
        "\<forall>j<k. T (snd (rest ! k)) < T (snd (rest ! j))"
        by auto
      have lt: "T (snd (rest ! k)) < T dep" using not_below_le [OF False k(3)] .
      have 1: "depot_scan gd day (e # rest) b mn = Inr (fst ((e # rest) ! Suc k))"
        using step k(2) by simp
      have 2: "below (T (snd ((e # rest) ! Suc k))) mn" using k(3) by simp
      have 3: "\<forall>j<length (e # rest). T (snd ((e # rest) ! Suc k)) \<le> T (snd ((e # rest) ! j))"
        using lt k(4) e by (auto simp: nth_Cons')
      have 4: "\<forall>j<Suc k. T (snd ((e # rest) ! Suc k)) < T (snd ((e # rest) ! j))"
        using lt k(5) e by (auto simp: nth_Cons' less_Suc_eq_0_disj)
      have "\<exists>x\<in>set (e # rest). below (T (snd x)) mn" using ex by auto
      moreover have "Suc k < length (e # rest)" using k(1) by simp
      ultimately show ?thesis using 1 2 3 4 by (metis (no_types, lifting))
    qed
  qed
qed

lemma select_optimal_depot_spec:
  assumes "depots \<noteq> []"
    and "\<forall>dep\<in>set depots. \<forall>c\<in>set day.
           gd (Depot_Latitude dep) (Depot_Longitude dep) (Latitude c) (Longitude c) = Inr (g dep c)"
  shows "\<exists>k<length depots. select_optimal_depot gd day depots = Inr (k, depots ! k)
      \<and> (\<forall>j<length depots. foldl (+) 0 (map (g (depots ! k)) day) \<le> foldl (+) 0 (map (g (depots ! j)) day))
      \<and> (\<forall>j<k. foldl (+) 0 (map (g (depots ! k)) day) < foldl (+) 0 (map (g (depots ! j)) day))"
proof -
  let ?es = "zip [0 ..< length depots] depots"
  let ?T = "\<lambda>dep. foldl (+) 0 (map (g dep) day)"
  have len: "length ?es = length depots" by simp
  have nth: "\<And>j. j < length depots \<Longrightarrow> ?es ! j = (j, depots ! j)" by simp
  have tot: "\<forall>p\<in>set ?es. depot_total gd (snd p) day 0 = Inr (?T (snd p))"
  proof
    fix p assume "p \<in> set ?es"
    then have "snd p \<in> set depots" by (metis in_set_zipE prod.collapse)
    with assms(2) show "depot_total gd (snd p) day 0 = Inr (?T (snd p))"
      by (intro depot_total_sum) simp
  qed
  have "?es \<noteq> []" using assms(1) by (metis len length_0_conv)
  then have "\<exists>p\<in>set ?es. below (?T (snd p)) None" by (cases ?es) auto
  with depot_scan_spec [OF tot, of None 0]
  obtain k where k: "k < length ?es" "depot_scan gd day ?es 0 None = Inr (fst (?es ! k))"
    "\<forall>j<length ?es. ?T (snd (?es ! k)) \<le> ?T (snd (?es ! j))"
    "\<forall>j<k. ?T (snd (?es ! k)) < ?T (snd (?es ! j))"
    by (metis (no_types, lifting))
  from k(1) have kl: "k < length depots" by simp
  have best: "depot_scan gd day ?es 0 None = Inr k" using k(2) nth [OF kl] by simp
  have "py_index depots (int k) = Inr (depots ! k)" using kl by (simp add: py_index_def)
  then have "select_optimal_depot gd day depots = Inr (k, depots ! k)"
    using best by (simp add: select_optimal_depot_def)
  moreover have "\<forall>j<length depots. ?T (depots ! k) \<le> ?T (depots ! j)"
    using k(3) kl nth by simp
  moreover have "\<forall>j<k. ?T (depots ! k) < ?T (depots ! j)"
    using k(4) kl nth by simp
  ultimately show ?thesis using kl by blast
qed

lemma select_optimal_depot_raises:
  assumes "\<exists>dep\<in>set depots. \<exists>c\<in>set day. \<exists>e.
           gd (Depot_Latitude dep) (Depot_Longitude dep) (Latitude c) (Longitude c) = Inl e"
  shows "\<exists>e. select_optimal_depot gd day depots = Inl e"
proof -
  from assms obtain dep where dep: "dep \<in> set depots" "\<exists>c\<in>set day. \<exists>e.
           gd (Depot_Latitude dep) (Depot_Longitude dep) (Latitude c) (Longitude c) = Inl e"
    by blast
  from depot_total_raises [of day gd dep 0] dep(2)
  obtain e where e: "depot_total gd dep day 0 = Inl e" by blast
  from dep(1) obtain i where "i < length depots" "depots ! i = dep" by (meson in_set_conv_nth)
  then have "(i, dep) \<in> set (zip [0 ..< length depots] depots)"
    by (metis add_cancel_right_left in_set_zip length_upt diff_zero nth_upt fst_conv snd_conv)
  with e have "\<exists>p\<in>set (zip [0 ..< length depots] depots). \<exists>e. depot_total gd (snd p) day 0 = Inl e"
    by force
  from depot_scan_raises [OF this, of 0 None]
  obtain e' where "depot_scan gd day (zip [0 ..< length depots] depots) 0 None = Inl e'" by blast
  then show ?thesis by (simp add: select_optimal_depot_def)
qed

lemma select_optimal_depot_empty: "select_optimal_depot gd day [] = Inl IndexError"
  by (simp add: select_optimal_depot_def py_index_def)

lemma select_optimal_depot_error:
  "select_optimal_depot gd day depots = Inl e \<Longrightarrow> e = IndexError \<or> (\<exists>a b c d. gd a b c d = Inl e)"
  by (auto simp: select_optimal_depot_def py_index_def split: sum.splits if_splits
      dest: depot_scan_error)

lemma py_index_mem: "py_index xs i = Inr x \<Longrightarrow> x \<in> set xs"
  by (auto simp: py_index_def split: if_splits)

lemma select_optimal_depot_member:
  "select_optimal_depot gd day depots = Inr (k, dep) \<Longrightarrow> dep \<in> set depots"
  by (auto simp: select_optimal_depot_def split: sum.splits dest: py_index_mem)

section \<open>The Haversine formula\<close>

lemma math_sqrt_error: "math_sqrt ops x = Inl e \<Longrightarrow> e = ValueError"
  by (simp add: math_sqrt_def split: if_splits)

lemma calculate_distance_error:
  "calculate_distance ops lat1 lon1 lat2 lon2 = Inl e \<Longrightarrow> e = ValueError"
  by (auto simp: calculate_distance_def Let_def split: sum.splits dest: math_sqrt_error)

lemma calculate_distance_raises:
  "haversine_a ops lat1 lon1 lat2 lon2 < 0 \<or> 1 - haversine_a ops lat1 lon1 lat2 lon2 < 0
   \<Longrightarrow> calculate_distance ops lat1 lon1 lat2 lon2 = Inl ValueError"
  by (auto simp: calculate_distance_def Let_def math_sqrt_def)

lemma calculate_distance_returns:
  "\<not> haversine_a ops lat1 lon1 lat2 lon2 < 0 \<Longrightarrow> \<not> 1 - haversine_a ops lat1 lon1 lat2 lon2 < 0
   \<Longrightarrow> \<exists>d. calculate_distance ops lat1 lon1 lat2 lon2 = Inr d"
  by (simp add: calculate_distance_def Let_def math_sqrt_def)

lemma haversine_a_self:
  assumes "double_laws ops"
  shows "haversine_a ops lat lon lat lon = 0"
proof -
  from assms have l: "\<And>x::'a. x - x = 0" "0 / m_two ops = 0" "m_sin ops 0 = 0"
    "m_pow2 ops 0 = 0" "\<And>u::'a. u * 0 = 0" "(0::'a) + 0 = 0"
    unfolding double_laws_def by blast+
  show ?thesis by (simp add: haversine_a_def Let_def l)
qed

lemma calculate_distance_self:
  assumes "double_laws ops"
  shows "calculate_distance ops lat lon lat lon = Inr 0"
proof -
  from assms have l: "(1::'a) - 0 = 1" "(0::'a) < 1" "m_sqrt ops 0 = 0" "m_sqrt ops 1 = 1"
    "m_atan2 ops 0 1 = 0" "\<And>u::'a. u * 0 = 0"
    unfolding double_laws_def by blast+
  from l(2) have "\<not> (1::'a) < 0" by (simp add: not_less less_imp_le)
  then show ?thesis
    by (simp add: calculate_distance_def haversine_a_self [OF assms] math_sqrt_def l)
qed

lemma halved_difference_square:
  assumes "double_laws ops"
  shows "m_pow2 ops (m_sin ops ((y - x) / m_two ops)) = m_pow2 ops (m_sin ops ((x - y) / m_two ops))"
proof -
  from assms have l: "\<And>x y::'a. y - x = - (x - y)" "\<And>z. (- z) / m_two ops = - (z / m_two ops)"
    "\<And>w. m_sin ops (- w) = - m_sin ops w" "\<And>v. m_pow2 ops (- v) = m_pow2 ops v"
    unfolding double_laws_def by blast+
  have "m_pow2 ops (m_sin ops ((y - x) / m_two ops))
      = m_pow2 ops (m_sin ops ((- (x - y)) / m_two ops))" by (subst l(1)) (rule refl)
  also have "\<dots> = m_pow2 ops (m_sin ops ((x - y) / m_two ops))" by (simp only: l(2) l(3) l(4))
  finally show ?thesis .
qed

lemma haversine_a_sym:
  assumes "double_laws ops"
  shows "haversine_a ops lat1 lon1 lat2 lon2 = haversine_a ops lat2 lon2 lat1 lon1"
proof -
  from assms have comm: "\<And>u v::'a. u * v = v * u" unfolding double_laws_def by blast
  have "m_cos ops (m_radians ops lat1) * m_cos ops (m_radians ops lat2)
      = m_cos ops (m_radians ops lat2) * m_cos ops (m_radians ops lat1)" by (rule comm)
  then show ?thesis
    by (simp only: haversine_a_def Let_def
        halved_difference_square [OF assms, of "m_radians ops lat2" "m_radians ops lat1"]
        halved_difference_square [OF assms, of "m_radians ops lon2" "m_radians ops lon1"])
qed

lemma calculate_distance_sym:
  assumes "double_laws ops"
  shows "calculate_distance ops lat1 lon1 lat2 lon2 = calculate_distance ops lat2 lon2 lat1 lon1"
  by (simp only: calculate_distance_def haversine_a_sym [OF assms, of lat1 lon1 lat2 lon2])

section \<open>The planning pass of a day\<close>

lemma matrix_row_length: "matrix_row gd locations i js = Inr row \<Longrightarrow> length row = length js"
  by (induction js arbitrary: row) (auto split: sum.splits if_splits)

lemma matrix_rows_shape:
  "matrix_rows gd locations rest = Inr rows \<Longrightarrow>
     length rows = length rest \<and> (\<forall>row\<in>set rows. length row = length locations)"
proof (induction rest arbitrary: rows)
  case Nil
  then show ?case by simp
next
  case (Cons i rest)
  then obtain row rows' where r: "matrix_row gd locations i [0 ..< length locations] = Inr row"
    "matrix_rows gd locations rest = Inr rows'" "rows = row # rows'"
    by (auto split: sum.splits)
  from matrix_row_length [OF r(1)] Cons.IH [OF r(2)] r(3) show ?case by simp
qed

lemma create_distance_matrix_shape:
  assumes "create_distance_matrix gd locations = Inr m"
  shows "length m = length locations" and "square m"
  using matrix_rows_shape [of gd locations "[0 ..< length locations]" m] assms
  by (simp_all add: create_distance_matrix_def square_def list_all_iff)

lemma matrix_row_error:
  "matrix_row gd locations i js = Inl e \<Longrightarrow> \<exists>a b c d. gd a b c d = Inl e"
  by (induction js) (auto split: sum.splits if_splits)

lemma matrix_rows_error:
  "matrix_rows gd locations rest = Inl e \<Longrightarrow> \<exists>a b c d. gd a b c d = Inl e"
  by (induction rest) (auto split: sum.splits dest: matrix_row_error)

lemma create_distance_matrix_error:
  "create_distance_matrix gd locations = Inl e \<Longrightarrow> \<exists>a b c d. gd a b c d = Inl e"
  by (simp add: create_distance_matrix_def matrix_rows_error)

lemma matrix_row_ok:
  assumes "\<forall>p\<in>set locations. \<forall>q\<in>set locations. \<exists>v. gd (fst p) (snd p) (fst q) (snd q) = Inr v"
    and "i < length locations" and "\<forall>j\<in>set js. j < length locations"
  shows "\<exists>row. matrix_row gd locations i js = Inr row"
  using assms(3)
proof (induction js)
  case Nil
  then show ?case by simp
next
  case (Cons j js)
  then obtain row where row: "matrix_row gd locations i js = Inr row" by auto
  from Cons.prems assms(1,2) obtain v where
    "gd (fst (locations ! i)) (snd (locations ! i)) (fst (locations ! j)) (snd (locations ! j)) = Inr v"
    by (metis list.set_intros(1) nth_mem)
  with row show ?case by auto
qed

lemma matrix_rows_ok:
  assumes "\<forall>p\<in>set locations. \<forall>q\<in>set locations. \<exists>v. gd (fst p) (snd p) (fst q) (snd q) = Inr v"
    and "\<forall>i\<in>set rest. i < length locations"
  shows "\<exists>rows. matrix_rows gd locations rest = Inr rows"
  using assms(2)
proof (induction rest)
  case Nil
  then show ?case by simp
next
  case (Cons i rest)
  then obtain rows where rows: "matrix_rows gd locations rest = Inr rows" by auto
  from Cons.prems have "i < length locations" by simp
  from matrix_row_ok [OF assms(1) this, of "[0 ..< length locations]"]
  obtain row where "matrix_row gd locations i [0 ..< length locations] = Inr row" by auto
  with rows show ?case by simp
qed

lemma create_distance_matrix_ok:
  assumes "\<forall>p\<in>set locations. \<forall>q\<in>set locations. \<exists>v. gd (fst p) (snd p) (fst q) (snd q) = Inr v"
  shows "\<exists>m. create_distance_matrix gd locations = Inr m"
  using matrix_rows_ok [OF assms, of "[0 ..< length locations]"]
  by (simp add: create_distance_matrix_def)

lemma efficiency_of_eq:
  "efficiency_of total_revenue total_distance =
     Inr (if 0 < total_distance then total_revenue / total_distance else 0)"
  by (auto simp: efficiency_of_def py_div_def)

lemma solve_tsp_ok:
  assumes "square m" "m \<noteq> []"
  shows "\<exists>t. solve_tsp m = Inr t \<and> is_tour (length m) t"
proof -
  obtain p where p: "nearest_neighbor_tsp m 0 = Inr (0 # p @ [0])"
    "mset p = mset (map int [1 ..< length m])"
    using nearest_neighbor_tsp_ok [OF assms] by blast
  have t0: "is_tour (length m) (0 # p @ [0])" using is_tour_closed [OF _ p(2)] assms(2) by simp
  then have "indices_ok m (0 # p @ [0])" using is_tour_indices_ok assms(2) by blast
  then obtain t where t: "two_opt_improvement (0 # p @ [0]) m 1000 = Inr t"
    using two_opt_improvement_ok [OF assms(1)] by blast
  from two_opt_improvement_perm [OF t] t0 have "is_tour (length m) t"
    using same_ends_is_tour by blast
  with p(1) t show ?thesis by (simp add: solve_tsp_def)
qed

text \<open>Once the depot is chosen and the matrix is built, the rest of the pass returns.\<close>

lemma route_of_matrix_ok:
  assumes "create_distance_matrix gd (loc # locs) = Inr m"
  shows "\<exists>t d. solve_tsp m = Inr t \<and> calculate_route_distance t m = Inr d"
proof -
  from create_distance_matrix_shape [OF assms] have sq: "square m" and ne: "m \<noteq> []" by auto
  obtain t where t: "solve_tsp m = Inr t" "is_tour (length m) t" using solve_tsp_ok [OF sq ne] by blast
  then have "indices_ok m t" using is_tour_indices_ok ne by blast
  then obtain d where "calculate_route_distance t m = Inr d"
    using calculate_route_distance_ok [OF sq] by blast
  with t(1) show ?thesis by blast
qed

lemma optimize_day_fields:
  assumes "optimize_day gd day_data depots prices = Inr res"
  shows "res_efficiency res = (if 0 < res_distance res then res_revenue res / res_distance res else 0)"
    and "res_revenue res = total_revenue_of day_data prices"
  using assms
  by (auto simp: optimize_day_def Let_def efficiency_of_eq split: sum.splits prod.splits)

lemma optimize_day_error:
  assumes "optimize_day gd day_data depots prices = Inl e"
  shows "e = IndexError \<or> (\<exists>a b c d. gd a b c d = Inl e)"
proof (cases "select_optimal_depot gd day_data depots")
  case (Inl e')
  with assms have "select_optimal_depot gd day_data depots = Inl e"
    by (simp add: optimize_day_def)
  then show ?thesis by (rule select_optimal_depot_error)
next
  case (Inr kd)
  obtain k dep where kd: "kd = (k, dep)" by (cases kd)
  let ?locs = "(Depot_Latitude dep, Depot_Longitude dep) # map (\<lambda>row. (Latitude row, Longitude row)) day_data"
  show ?thesis
  proof (cases "create_distance_matrix gd ?locs")
    case (Inl e')
    with assms Inr kd have "create_distance_matrix gd ?locs = Inl e"
      by (simp add: optimize_day_def)
    then show ?thesis using create_distance_matrix_error by blast
  next
    case m: (Inr m)
    from route_of_matrix_ok [OF m] obtain t d where
      "solve_tsp m = Inr t" "calculate_route_distance t m = Inr d" by blast
    with assms Inr kd m show ?thesis
      by (simp add: optimize_day_def Let_def efficiency_of_eq)
  qed
qed

lemma returns_iff: "(case x of Inl e \<Rightarrow> False | Inr d \<Rightarrow> True) = (\<exists>v. x = Inr v)"
  by (cases x) auto

lemma distances_defined_iff:
  "distances_defined gd pts
     = (\<forall>p\<in>set pts. \<forall>q\<in>set pts. \<exists>v. gd (fst p) (snd p) (fst q) (snd q) = Inr v)"
  by (simp add: distances_defined_def list_all_iff returns_iff)

lemma optimize_day_ok:
  assumes "depots \<noteq> []" and "distances_defined gd (planning_points depots day_data)"
  shows "\<exists>res. optimize_day gd day_data depots prices = Inr res"
proof -
  let ?pts = "planning_points depots day_data"
  from assms(2) have def: "\<forall>p\<in>set ?pts. \<forall>q\<in>set ?pts. \<exists>v. gd (fst p) (snd p) (fst q) (snd q) = Inr v"
    by (simp add: distances_defined_iff)
  have dep_pt: "\<And>dep. dep \<in> set depots \<Longrightarrow> (Depot_Latitude dep, Depot_Longitude dep) \<in> set ?pts"
    by (auto simp: planning_points_def)
  have row_pt: "\<And>c. c \<in> set day_data \<Longrightarrow> (Latitude c, Longitude c) \<in> set ?pts"
    by (auto simp: planning_points_def)
  have "\<forall>dep\<in>set depots. \<forall>c\<in>set day_data.
      gd (Depot_Latitude dep) (Depot_Longitude dep) (Latitude c) (Longitude c)
        = Inr (projr (gd (Depot_Latitude dep) (Depot_Longitude dep) (Latitude c) (Longitude c)))"
  proof (intro ballI)
    fix dep c assume "dep \<in> set depots" "c \<in> set day_data"
    with def dep_pt row_pt obtain v where
      "gd (Depot_Latitude dep) (Depot_Longitude dep) (Latitude c) (Longitude c) = Inr v"
      by (metis fst_conv snd_conv)
    then show "gd (Depot_Latitude dep) (Depot_Longitude dep) (Latitude c) (Longitude c)
        = Inr (projr (gd (Depot_Latitude dep) (Depot_Longitude dep) (Latitude c) (Longitude c)))"
      by simp
  qed
  from select_optimal_depot_spec [OF assms(1), of day_data gd
      "\<lambda>dep c. projr (gd (Depot_Latitude dep) (Depot_Longitude dep) (Latitude c) (Longitude c))", OF this]
  obtain k where k: "k < length depots" "select_optimal_depot gd day_data depots = Inr (k, depots ! k)"
    by blast
  let ?locs = "(Depot_Latitude (depots ! k), Depot_Longitude (depots ! k))
      # map (\<lambda>row. (Latitude row, Longitude row)) day_data"
  have "set ?locs \<subseteq> set ?pts" using dep_pt [of "depots ! k"] k(1) row_pt by auto
  with def have "\<forall>p\<in>set ?locs. \<forall>q\<in>set ?locs. \<exists>v. gd (fst p) (snd p) (fst q) (snd q) = Inr v"
    by (meson subsetD)
  from create_distance_matrix_ok [OF this] obtain m where m: "create_distance_matrix gd ?locs = Inr m"
    by blast
  from route_of_matrix_ok [OF m] obtain t d where
    "solve_tsp m = Inr t" "calculate_route_distance t m = Inr d" by blast
  with k(2) m show ?thesis by (simp add: optimize_day_def Let_def efficiency_of_eq)
qed

lemma optimize_day_no_depot: "optimize_day gd day_data [] prices = Inl IndexError"
  by (simp add: optimize_day_def select_optimal_depot_empty)

lemma weekly_loop_efficiency:
  "weekly_loop gd weekly depots prices days results = Inr out \<Longrightarrow>
   \<forall>(d, r)\<in>set results. res_efficiency r = (if 0 < res_distance r then res_revenue r / res_distance r else 0) \<Longrightarrow>
   \<forall>(d, r)\<in>set out. res_efficiency r = (if 0 < res_distance r then res_revenue r / res_distance r else 0)"
proof (induction days arbitrary: results)
  case Nil
  then show ?case by simp
next
  case (Cons day days)
  let ?dd = "filter (\<lambda>row. Day row = day) weekly"
  show ?case
  proof (cases "length ?dd = 0")
    case True
    with Cons show ?thesis by simp
  next
    case False
    with Cons.prems(1) obtain res where res: "optimize_day gd ?dd depots prices = Inr res"
      "weekly_loop gd weekly depots prices days (results @ [(day, res)]) = Inr out"
      by (auto simp: Let_def split: sum.splits)
    have "\<forall>(d, r)\<in>set (results @ [(day, res)]).
        res_efficiency r = (if 0 < res_distance r then res_revenue r / res_distance r else 0)"
      using Cons.prems(2) optimize_day_fields(1) [OF res(1)] by auto
    from Cons.IH [OF res(2) this] show ?thesis .
  qed
qed

lemma weekly_loop_error:
  "weekly_loop gd weekly depots prices days results = Inl e \<Longrightarrow>
     e = IndexError \<or> (\<exists>a b c d. gd a b c d = Inl e)"
proof (induction days arbitrary: results)
  case Nil
  then show ?case by simp
next
  case (Cons day days)
  let ?dd = "filter (\<lambda>row. Day row = day) weekly"
  show ?case
  proof (cases "optimize_day gd ?dd depots prices")
    case (Inl e')
    show ?thesis
    proof (cases "length ?dd = 0")
      case True
      with Cons show ?thesis by simp
    next
      case False
      with Cons.prems Inl have "optimize_day gd ?dd depots prices = Inl e" by (simp add: Let_def)
      then show ?thesis by (rule optimize_day_error)
    qed
  next
    case (Inr res)
    with Cons show ?thesis by (auto simp: Let_def split: if_splits)
  qed
qed

lemma series_sum_append: "series_sum (xs @ ys) acc = series_sum ys (series_sum xs acc)"
  by (induction xs acc rule: series_sum.induct) auto

lemma merge_prices_append:
  "merge_prices (xs @ ys) prices = merge_prices xs prices @ merge_prices ys prices"
  by (simp add: merge_prices_def)

lemma merge_prices_unpriced:
  "Material row \<notin> fst ` set prices \<Longrightarrow> merge_prices [row] prices = [(Estimated_Weight_kg row, None)]"
proof -
  assume "Material row \<notin> fst ` set prices"
  then have "filter (\<lambda>(material, price). material = Material row) prices = []"
    by (force simp: filter_empty_conv)
  then show ?thesis by (simp add: merge_prices_def)
qed

lemma total_revenue_unpriced:
  assumes "Material row \<notin> fst ` set prices"
  shows "total_revenue_of (xs @ row # ys) prices = total_revenue_of (xs @ ys) prices"
proof -
  have "merge_prices (xs @ row # ys) prices
      = merge_prices xs prices @ merge_prices [row] prices @ merge_prices ys prices"
    by (metis append_Cons append_Nil merge_prices_append)
  then show ?thesis
    by (simp add: total_revenue_of_def merge_prices_unpriced [OF assms] merge_prices_append
        series_sum_append)
qed

lemma row_revenue_priced_zero:
  fixes prices :: "('a::linordered_field) price_table"
  assumes "mat \<notin> fst ` set prices"
  shows "series_sum (map (\<lambda>(w, price). map_option (\<lambda>p. w * p) price) (merge_prices [row] (prices @ [(mat, 0)]))) acc
       = series_sum (map (\<lambda>(w, price). map_option (\<lambda>p. w * p) price) (merge_prices [row] prices)) acc"
proof (cases "Material row = mat")
  case True
  with assms have "filter (\<lambda>(material, price). material = Material row) prices = []"
    by (force simp: filter_empty_conv)
  with True show ?thesis by (simp add: merge_prices_def)
next
  case False
  then have "filter (\<lambda>(material, price). material = Material row) (prices @ [(mat, 0)])
      = filter (\<lambda>(material, price). material = Material row) prices" by auto
  then show ?thesis by (simp add: merge_prices_def)
qed

lemma revenue_priced_zero_acc:
  fixes prices :: "('a::linordered_field) price_table"
  assumes "mat \<notin> fst ` set prices"
  shows "series_sum (map (\<lambda>(w, price). map_option (\<lambda>p. w * p) price) (merge_prices day (prices @ [(mat, 0)]))) acc
       = series_sum (map (\<lambda>(w, price). map_option (\<lambda>p. w * p) price) (merge_prices day prices)) acc"
proof (induction day arbitrary: acc)
  case Nil
  then show ?case by (simp add: merge_prices_def)
next
  case (Cons row day)
  have split: "\<And>ps. merge_prices (row # day) ps = merge_prices [row] ps @ merge_prices day ps"
    by (simp add: merge_prices_def)
  show ?case
    by (simp only: split map_append series_sum_append row_revenue_priced_zero [OF assms] Cons.IH)
qed

lemma total_revenue_priced_zero:
  fixes prices :: "('a::linordered_field) price_table"
  assumes "mat \<notin> fst ` set prices"
  shows "total_revenue_of day (prices @ [(mat, 0)]) = total_revenue_of day prices"
  by (simp add: total_revenue_of_def revenue_priced_zero_acc [OF assms])

lemma optimize_day_priced_zero:
  fixes prices :: "('a::linordered_field) price_table"
  assumes "mat \<notin> fst ` set prices"
  shows "optimize_day gd day depots (prices @ [(mat, 0)]) = optimize_day gd day depots prices"
  unfolding optimize_day_def total_revenue_priced_zero [OF assms] by (rule refl)

section \<open>The claims\<close>

text \<open>
  C1. The tour that \<open>two_opt_improvement\<close> returns is never longer than its input tour,
  both measured by \<open>calculate_route_distance\<close> over the same matrix: whenever the call
  returns a tour, the two distances exist and the returned one is at most the input's;
  and on a square matrix with a tour of indices of that matrix the call does return a
  tour, whatever the budget.
\<close>

theorem two_opt_never_worse:
  "(two_opt_improvement route m max_iterations = Inr r \<longrightarrow>
      (\<exists>d d'. calculate_route_distance route m = Inr d
             \<and> calculate_route_distance r m = Inr d' \<and> d' \<le> d))
   \<and> (square m \<and> indices_ok m route \<longrightarrow>
      (\<exists>r'. two_opt_improvement route m max_iterations = Inr r'))"
  using two_opt_improvement_le [of route m max_iterations r]
    two_opt_improvement_ok [of m route max_iterations]
  by blast

theorem two_opt_never_worse_witness:
  "square equator_matrix \<and> indices_ok equator_matrix [0, 1, 2, 3, 0]
   \<and> two_opt_improvement [0, 1, 2, 3, 0] equator_matrix 1000 = Inr [0, 2, 1, 3, 0]
   \<and> (\<exists>d d'. calculate_route_distance [0, 1, 2, 3, 0] equator_matrix = Inr d
            \<and> calculate_route_distance [0, 2, 1, 3, 0] equator_matrix = Inr d' \<and> d' \<le> d)"
proof -
  have sq: "square equator_matrix" by code_simp
  have ok: "indices_ok equator_matrix [0, 1, 2, 3, 0]" by code_simp
  have run: "two_opt_improvement [0, 1, 2, 3, 0] equator_matrix 1000 = Inr [0, 2, 1, 3, 0]"
    by code_simp
  from two_opt_never_worse [of "[0, 1, 2, 3, 0]" equator_matrix 1000 "[0, 2, 1, 3, 0]"] run
  have "\<exists>d d'. calculate_route_distance [0, 1, 2, 3, 0] equator_matrix = Inr d
            \<and> calculate_route_distance [0, 2, 1, 3, 0] equator_matrix = Inr d' \<and> d' \<le> d"
    by blast
  with sq ok run show ?thesis by blast
qed

text \<open>
  C2. On a square matrix over \<open>n \<ge> 1\<close> locations, \<open>nearest_neighbor_tsp\<close> from index
  \<open>0\<close> returns a tour: it starts and ends at \<open>0\<close>, has \<open>n + 1\<close> entries and holds every
  other index exactly once. For every such tour \<open>two_opt_improvement\<close> returns a tour
  again, a rearrangement of the same entries with the same first and last entry.
\<close>

theorem tour_invariant:
  assumes "square m" and "1 \<le> length m"
  shows "(\<exists>t. nearest_neighbor_tsp m 0 = Inr t \<and> is_tour (length m) t)
       \<and> (is_tour (length m) t \<longrightarrow>
            (\<exists>t'. two_opt_improvement t m max_iterations = Inr t' \<and> is_tour (length m) t'
                 \<and> mset t' = mset t \<and> hd t' = hd t \<and> last t' = last t))"
proof
  from assms have ne: "m \<noteq> []" by auto
  obtain p where p: "nearest_neighbor_tsp m 0 = Inr (0 # p @ [0])"
    "mset p = mset (map int [1 ..< length m])"
    using nearest_neighbor_tsp_ok [OF assms(1) ne] by blast
  from ne have "0 < length m" by simp
  from is_tour_closed [OF this p(2)] have "is_tour (length m) (0 # p @ [0])" .
  with p(1) show "\<exists>t. nearest_neighbor_tsp m 0 = Inr t \<and> is_tour (length m) t" by blast
  show "is_tour (length m) t \<longrightarrow>
            (\<exists>t'. two_opt_improvement t m max_iterations = Inr t' \<and> is_tour (length m) t'
                 \<and> mset t' = mset t \<and> hd t' = hd t \<and> last t' = last t)"
  proof
    assume t: "is_tour (length m) t"
    then have "indices_ok m t" using is_tour_indices_ok ne by blast
    then obtain t' where t': "two_opt_improvement t m max_iterations = Inr t'"
      using two_opt_improvement_ok [OF assms(1)] by blast
    from two_opt_improvement_perm [OF t']
    have same: "mset t' = mset t" "hd t' = hd t" "last t' = last t" by simp_all
    from same_ends_is_tour [OF t same] t' same
    show "\<exists>t'. two_opt_improvement t m max_iterations = Inr t' \<and> is_tour (length m) t'
                 \<and> mset t' = mset t \<and> hd t' = hd t \<and> last t' = last t" by blast
  qed
qed

theorem tour_invariant_witness:
  "square equator_matrix \<and> 1 \<le> length equator_matrix
   \<and> (\<exists>t. nearest_neighbor_tsp equator_matrix 0 = Inr t \<and> is_tour (length equator_matrix) t)
   \<and> is_tour (length equator_matrix) [0, 1, 2, 3, 0]
   \<and> (\<exists>t'. two_opt_improvement [0, 1, 2, 3, 0] equator_matrix 1000 = Inr t'
          \<and> is_tour (length equator_matrix) t' \<and> mset t' = mset [0, 1, 2, 3, 0]
          \<and> hd t' = hd [0, 1, 2, 3, 0] \<and> last t' = last [0, 1, 2, 3, 0])"
proof -
  have sq: "square equator_matrix" by code_simp
  have len: "1 \<le> length equator_matrix" by code_simp
  have tour: "is_tour (length equator_matrix) [0, 1, 2, 3, 0]" by code_simp
  from tour_invariant [OF sq len, of "[0, 1, 2, 3, 0]" 1000] sq len tour show ?thesis by blast
qed

text \<open>
  C5, as the code has it. On the empty matrix \<open>nearest_neighbor_tsp\<close> raises \<open>KeyError\<close>:
  the route is \<open>[start_idx]\<close> when \<open>unvisited.remove(start_idx)\<close> runs on the empty set.
  It returns no empty tour. On every square matrix over at least one location, from
  index \<open>0\<close>, it returns a closed tour, so among the square matrices the empty one is
  the only one on which it fails.
\<close>

theorem nearest_neighbor_fails_only_on_empty:
  assumes "square m"
  shows "(m = [] \<longrightarrow> nearest_neighbor_tsp m 0 = Inl KeyError)
       \<and> (m \<noteq> [] \<longrightarrow> (\<exists>t. nearest_neighbor_tsp m 0 = Inr t
             \<and> hd t = 0 \<and> last t = 0 \<and> length t = length m + 1))"
proof (intro conjI impI)
  assume "m = []"
  then show "nearest_neighbor_tsp m 0 = Inl KeyError" by (simp add: nearest_neighbor_tsp_empty)
next
  assume ne: "m \<noteq> []"
  obtain p where p: "nearest_neighbor_tsp m 0 = Inr (0 # p @ [0])"
    "mset p = mset (map int [1 ..< length m])"
    using nearest_neighbor_tsp_ok [OF assms ne] by blast
  have "length p = length m - 1" using p(2) by (metis size_mset length_map length_upt)
  with ne have "length (0 # p @ [0]) = length m + 1" by (cases m) auto
  with p(1) show "\<exists>t. nearest_neighbor_tsp m 0 = Inr t
             \<and> hd t = 0 \<and> last t = 0 \<and> length t = length m + 1" by simp
qed

theorem nearest_neighbor_fails_only_on_empty_witness:
  "square equator_matrix \<and> equator_matrix \<noteq> []
   \<and> (\<exists>t. nearest_neighbor_tsp equator_matrix 0 = Inr t
          \<and> hd t = 0 \<and> last t = 0 \<and> length t = length equator_matrix + 1)
   \<and> square ([] :: real list list) \<and> nearest_neighbor_tsp ([] :: real list list) 0 = Inl KeyError"
proof -
  have sq: "square equator_matrix" by code_simp
  have ne: "equator_matrix \<noteq> []" by code_simp
  have sq0: "square ([] :: real list list)" by code_simp
  from nearest_neighbor_fails_only_on_empty [OF sq] nearest_neighbor_fails_only_on_empty [OF sq0]
    sq ne sq0
  show ?thesis by blast
qed

text \<open>
  The empty location list: \<open>KeyError\<close>, not the empty tour.
\<close>

theorem nearest_neighbor_empty_counterexample:
  "nearest_neighbor_tsp ([] :: real list list) 0 = Inl KeyError
   \<and> nearest_neighbor_tsp ([] :: real list list) 0 \<noteq> Inr []"
  by (simp add: nearest_neighbor_tsp_def set_remove_def)

text \<open>
  C7. With the budget \<open>0\<close> the loop of \<open>two_opt_improvement\<close> does not run: a tour that
  is returned is the input tour, a tour of indices of a square matrix is returned, and
  so the nearest-neighbour tour of a square matrix over at least one location passes
  through unchanged.
\<close>

theorem zero_budget_returns_input:
  "(two_opt_improvement route m 0 = Inr r \<longrightarrow> r = route)
   \<and> (square m \<and> indices_ok m route \<longrightarrow> two_opt_improvement route m 0 = Inr route)
   \<and> (square m \<and> m \<noteq> [] \<longrightarrow>
        (\<exists>t. nearest_neighbor_tsp m 0 = Inr t \<and> two_opt_improvement t m 0 = Inr t))"
proof (intro conjI impI)
  assume "two_opt_improvement route m 0 = Inr r"
  then show "r = route"
    by (simp add: two_opt_improvement_no_budget split: sum.splits)
next
  assume "square m \<and> indices_ok m route"
  then obtain d where "calculate_route_distance route m = Inr d"
    using calculate_route_distance_ok by blast
  then show "two_opt_improvement route m 0 = Inr route"
    by (simp add: two_opt_improvement_no_budget)
next
  assume a: "square m \<and> m \<noteq> []"
  then obtain p where p: "nearest_neighbor_tsp m 0 = Inr (0 # p @ [0])"
    "mset p = mset (map int [1 ..< length m])"
    using nearest_neighbor_tsp_ok by blast
  from a have "0 < length m" by simp
  from is_tour_closed [OF this p(2)] have "indices_ok m (0 # p @ [0])"
    using is_tour_indices_ok a by blast
  then obtain d where "calculate_route_distance (0 # p @ [0]) m = Inr d"
    using calculate_route_distance_ok a by blast
  then have "two_opt_improvement (0 # p @ [0]) m 0 = Inr (0 # p @ [0])"
    by (simp add: two_opt_improvement_no_budget)
  with p(1) show "\<exists>t. nearest_neighbor_tsp m 0 = Inr t \<and> two_opt_improvement t m 0 = Inr t"
    by blast
qed

theorem zero_budget_returns_input_witness:
  "square equator_matrix \<and> indices_ok equator_matrix [0, 1, 2, 3, 0] \<and> equator_matrix \<noteq> []
   \<and> two_opt_improvement [0, 1, 2, 3, 0] equator_matrix 0 = Inr [0, 1, 2, 3, 0]
   \<and> (\<exists>t. nearest_neighbor_tsp equator_matrix 0 = Inr t
          \<and> two_opt_improvement t equator_matrix 0 = Inr t)"
proof -
  have sq: "square equator_matrix" by code_simp
  have ok: "indices_ok equator_matrix [0, 1, 2, 3, 0]" by code_simp
  have ne: "equator_matrix \<noteq> []" by code_simp
  from zero_budget_returns_input [of "[0, 1, 2, 3, 0]" equator_matrix] sq ok ne
  show ?thesis by blast
qed

text \<open>
  C10, as the code has it. A negative budget is not rejected: \<open>range(max_iterations)\<close> is
  empty, so the call does what it does with the budget \<open>0\<close>, and for a tour of indices
  of a square matrix it returns the input tour.
\<close>

theorem negative_budget_returns_input:
  assumes "max_iterations < 0"
  shows "two_opt_improvement route m max_iterations = two_opt_improvement route m 0
       \<and> (square m \<and> indices_ok m route \<longrightarrow>
            two_opt_improvement route m max_iterations = Inr route)"
proof
  from assms show eq: "two_opt_improvement route m max_iterations = two_opt_improvement route m 0"
    by (simp add: two_opt_improvement_no_budget)
  show "square m \<and> indices_ok m route \<longrightarrow> two_opt_improvement route m max_iterations = Inr route"
  proof
    assume "square m \<and> indices_ok m route"
    then obtain d where "calculate_route_distance route m = Inr d"
      using calculate_route_distance_ok by blast
    with assms show "two_opt_improvement route m max_iterations = Inr route"
      by (simp add: two_opt_improvement_no_budget)
  qed
qed

theorem negative_budget_returns_input_witness:
  "(- 5 :: int) < 0 \<and> square equator_matrix \<and> indices_ok equator_matrix [0, 1, 2, 3, 0]
   \<and> two_opt_improvement [0, 1, 2, 3, 0] equator_matrix (- 5) = Inr [0, 1, 2, 3, 0]"
proof -
  have neg: "(- 5 :: int) < 0" by simp
  have sq: "square equator_matrix" by code_simp
  have ok: "indices_ok equator_matrix [0, 1, 2, 3, 0]" by code_simp
  from negative_budget_returns_input [OF neg, of "[0, 1, 2, 3, 0]" equator_matrix] neg sq ok
  show ?thesis by blast
qed

text \<open>
  The budget \<open>-1\<close>: the call produces a tour result.
\<close>

theorem negative_budget_counterexample:
  "two_opt_improvement [0, 1, 2, 3, 0] equator_matrix (- 1) = Inr [0, 1, 2, 3, 0]"
  by code_simp

text \<open>
  C6. When \<open>calculate_distance\<close> returns a distance \<open>g dep c\<close> for every depot \<open>dep\<close> of a
  table with at least one row and every collection point \<open>c\<close> of the day,
  \<open>select_optimal_depot\<close> returns a position \<open>k\<close> of the table with the row at \<open>k\<close>,
  such that the sum of the distances from that depot to all the collection points of
  the day (\<open>foldl (+) 0\<close>: the sum taken from left to right) is at most the sum of every
  depot of the table and strictly below the sum of every depot before \<open>k\<close>: the
  minimum, and among equal minima the first. When \<open>calculate_distance\<close> raises for some
  depot and some collection point, no depot is returned: the exception ends the call.
\<close>

theorem select_optimal_depot_minimal:
  "(depots \<noteq> []
      \<and> (\<forall>dep\<in>set depots. \<forall>c\<in>set day_data.
            gd (Depot_Latitude dep) (Depot_Longitude dep) (Latitude c) (Longitude c)
              = Inr (g dep c))
     \<longrightarrow> (\<exists>k<length depots. select_optimal_depot gd day_data depots = Inr (k, depots ! k)
           \<and> (\<forall>j<length depots. foldl (+) 0 (map (g (depots ! k)) day_data)
                                  \<le> foldl (+) 0 (map (g (depots ! j)) day_data))
           \<and> (\<forall>j<k. foldl (+) 0 (map (g (depots ! k)) day_data)
                       < foldl (+) 0 (map (g (depots ! j)) day_data))))
   \<and> ((\<exists>dep\<in>set depots. \<exists>c\<in>set day_data. \<exists>e.
          gd (Depot_Latitude dep) (Depot_Longitude dep) (Latitude c) (Longitude c) = Inl e)
     \<longrightarrow> (\<exists>e. select_optimal_depot gd day_data depots = Inl e))"
  using select_optimal_depot_spec [of depots day_data gd g]
    select_optimal_depot_raises [of depots day_data gd]
  by blast

theorem select_optimal_depot_minimal_witness:
  "[depot_origin, depot_east] \<noteq> []
   \<and> foldl (+) 0 (map (\<lambda>c. \<bar>Latitude c - Depot_Latitude depot_origin\<bar>
                            + \<bar>Longitude c - Depot_Longitude depot_origin\<bar>) three_stops) = 20
   \<and> foldl (+) 0 (map (\<lambda>c. \<bar>Latitude c - Depot_Latitude depot_east\<bar>
                            + \<bar>Longitude c - Depot_Longitude depot_east\<bar>) three_stops) = 10
   \<and> select_optimal_depot flat_distance three_stops [depot_origin, depot_east]
       = Inr (1, depot_east)
   \<and> (\<exists>k<length [depot_origin, depot_east].
        select_optimal_depot flat_distance three_stops [depot_origin, depot_east]
          = Inr (k, [depot_origin, depot_east] ! k))
   \<and> calculate_distance coarse_ops (Depot_Latitude depot_origin) (Depot_Longitude depot_origin)
        (Latitude far_stop) (Longitude far_stop) = Inl ValueError
   \<and> (\<exists>e. select_optimal_depot (calculate_distance coarse_ops) [far_stop] [depot_origin] = Inl e)"
proof -
  let ?g = "\<lambda>dep c. \<bar>Latitude c - Depot_Latitude dep\<bar> + \<bar>Longitude c - Depot_Longitude dep\<bar> :: real"
  have ne: "[depot_origin, depot_east] \<noteq> []" by simp
  have all: "\<forall>dep\<in>set [depot_origin, depot_east]. \<forall>c\<in>set three_stops.
         flat_distance (Depot_Latitude dep) (Depot_Longitude dep) (Latitude c) (Longitude c)
           = Inr (?g dep c)"
    by (simp add: flat_distance_def)
  have s0: "foldl (+) 0 (map (?g depot_origin) three_stops) = 20" by code_simp
  have s1: "foldl (+) 0 (map (?g depot_east) three_stops) = 10" by code_simp
  have run: "select_optimal_depot flat_distance three_stops [depot_origin, depot_east]
       = Inr (1, depot_east)" by code_simp
  have far: "calculate_distance coarse_ops (Depot_Latitude depot_origin)
      (Depot_Longitude depot_origin) (Latitude far_stop) (Longitude far_stop) = Inl ValueError"
    by code_simp
  then have raises: "\<exists>dep\<in>set [depot_origin]. \<exists>c\<in>set [far_stop]. \<exists>e.
      calculate_distance coarse_ops (Depot_Latitude dep) (Depot_Longitude dep)
        (Latitude c) (Longitude c) = Inl e" by simp
  from select_optimal_depot_minimal [of "[depot_origin, depot_east]" three_stops flat_distance ?g] ne all
  have "\<exists>k<length [depot_origin, depot_east].
        select_optimal_depot flat_distance three_stops [depot_origin, depot_east]
          = Inr (k, [depot_origin, depot_east] ! k)" by blast
  moreover from select_optimal_depot_minimal [of "[depot_origin]" "[far_stop]"
      "calculate_distance coarse_ops"] raises
  have "\<exists>e. select_optimal_depot (calculate_distance coarse_ops) [far_stop] [depot_origin] = Inl e"
    by blast
  ultimately show ?thesis using ne s0 s1 run far by blast
qed

text \<open>
  C8. In the result of a day the efficiency is the revenue divided by the distance
  when the distance is positive and \<open>0\<close> otherwise, in particular when the distance is
  \<open>0\<close>. The pass of a day, with \<open>calculate_distance\<close> for its distances, never ends in
  \<open>ZeroDivisionError\<close>; with a depot in the table, and a distance returned for every two
  of the depots and collection points, it returns a result. The same relation holds
  of every result of \<open>optimize_weekly_routes\<close>, which never ends in
  \<open>ZeroDivisionError\<close> either.
\<close>

theorem efficiency_guarded:
  "(optimize_day gd day_data depots prices = Inr res \<longrightarrow>
      res_efficiency res
        = (if 0 < res_distance res then res_revenue res / res_distance res else 0))
   \<and> optimize_day (calculate_distance ops) day_data depots prices \<noteq> Inl ZeroDivisionError
   \<and> (depots \<noteq> [] \<and> distances_defined gd (planning_points depots day_data) \<longrightarrow>
        (\<exists>res'. optimize_day gd day_data depots prices = Inr res'))
   \<and> (optimize_weekly_routes gd weekly_data depots prices = Inr results \<longrightarrow>
        (\<forall>(day, res')\<in>set results. res_efficiency res'
           = (if 0 < res_distance res' then res_revenue res' / res_distance res' else 0)))
   \<and> optimize_weekly_routes (calculate_distance ops) weekly_data depots prices
       \<noteq> Inl ZeroDivisionError"
proof (intro conjI impI)
  assume "optimize_day gd day_data depots prices = Inr res"
  then show "res_efficiency res
        = (if 0 < res_distance res then res_revenue res / res_distance res else 0)"
    by (rule optimize_day_fields(1))
next
  show "optimize_day (calculate_distance ops) day_data depots prices \<noteq> Inl ZeroDivisionError"
  proof
    assume "optimize_day (calculate_distance ops) day_data depots prices = Inl ZeroDivisionError"
    from optimize_day_error [OF this] show False by (auto dest: calculate_distance_error)
  qed
next
  assume "depots \<noteq> [] \<and> distances_defined gd (planning_points depots day_data)"
  then show "\<exists>res'. optimize_day gd day_data depots prices = Inr res'"
    using optimize_day_ok by blast
next
  assume "optimize_weekly_routes gd weekly_data depots prices = Inr results"
  then have "weekly_loop gd weekly_data depots prices (unique (map Day weekly_data)) [] = Inr results"
    by (simp add: optimize_weekly_routes_def)
  from weekly_loop_efficiency [OF this]
  show "\<forall>(day, res')\<in>set results. res_efficiency res'
           = (if 0 < res_distance res' then res_revenue res' / res_distance res' else 0)"
    by simp
next
  show "optimize_weekly_routes (calculate_distance ops) weekly_data depots prices
       \<noteq> Inl ZeroDivisionError"
  proof
    assume "optimize_weekly_routes (calculate_distance ops) weekly_data depots prices
       = Inl ZeroDivisionError"
    then have "weekly_loop (calculate_distance ops) weekly_data depots prices
        (unique (map Day weekly_data)) [] = Inl ZeroDivisionError"
      by (simp add: optimize_weekly_routes_def)
    from weekly_loop_error [OF this] show False by (auto dest: calculate_distance_error)
  qed
qed

theorem efficiency_guarded_witness:
  "(\<exists>res. optimize_day flat_distance [paper_stop] [depot_far, depot_origin] [(''Paper'', 2)] = Inr res
        \<and> res_distance res = 2 \<and> res_revenue res = 20 \<and> res_efficiency res = 10
        \<and> res_efficiency res
            = (if 0 < res_distance res then res_revenue res / res_distance res else 0))
   \<and> (\<exists>res. optimize_day flat_distance [glass_at_depot] [depot_origin] [(''Paper'', 2)] = Inr res
        \<and> res_distance res = 0 \<and> res_efficiency res = 0
        \<and> res_efficiency res
            = (if 0 < res_distance res then res_revenue res / res_distance res else 0))
   \<and> [depot_far, depot_origin] \<noteq> []
   \<and> distances_defined flat_distance (planning_points [depot_far, depot_origin] [paper_stop])
   \<and> optimize_day (calculate_distance coarse_ops) [far_stop] [depot_origin] [(''Paper'', 2)]
       = Inl ValueError"
proof -
  let ?r1 = "\<lparr>res_route = [0, 1, 0], res_locations = [(0, 0), (0, 1)], res_distance = 2,
            res_weight = 10, res_revenue = 20, res_depot = depot_origin,
            res_collections = [paper_stop], res_efficiency = 10 :: real\<rparr>"
  let ?r2 = "\<lparr>res_route = [0, 1, 0], res_locations = [(0, 0), (0, 0)], res_distance = 0,
            res_weight = 10, res_revenue = 0, res_depot = depot_origin,
            res_collections = [glass_at_depot], res_efficiency = 0 :: real\<rparr>"
  have a: "optimize_day flat_distance [paper_stop] [depot_far, depot_origin] [(''Paper'', 2)]
     = Inr ?r1" by code_simp
  have b: "optimize_day flat_distance [glass_at_depot] [depot_origin] [(''Paper'', 2)]
     = Inr ?r2" by code_simp
  have ne: "[depot_far, depot_origin] \<noteq> []" by simp
  have dd: "distances_defined flat_distance (planning_points [depot_far, depot_origin] [paper_stop])"
    by code_simp
  have far: "optimize_day (calculate_distance coarse_ops) [far_stop] [depot_origin] [(''Paper'', 2)]
       = Inl ValueError" by code_simp
  from efficiency_guarded [of flat_distance "[paper_stop]" "[depot_far, depot_origin]"
      "[(''Paper'', 2)]" ?r1] a
  have e1: "res_efficiency ?r1
      = (if 0 < res_distance ?r1 then res_revenue ?r1 / res_distance ?r1 else 0)" by blast
  from efficiency_guarded [of flat_distance "[glass_at_depot]" "[depot_origin]"
      "[(''Paper'', 2)]" ?r2] b
  have e2: "res_efficiency ?r2
      = (if 0 < res_distance ?r2 then res_revenue ?r2 / res_distance ?r2 else 0)" by blast
  have "\<exists>res. optimize_day flat_distance [paper_stop] [depot_far, depot_origin] [(''Paper'', 2)] = Inr res
        \<and> res_distance res = 2 \<and> res_revenue res = 20 \<and> res_efficiency res = 10
        \<and> res_efficiency res
            = (if 0 < res_distance res then res_revenue res / res_distance res else 0)"
    using a e1 by (intro exI [of _ ?r1]) simp
  moreover have "\<exists>res. optimize_day flat_distance [glass_at_depot] [depot_origin] [(''Paper'', 2)] = Inr res
        \<and> res_distance res = 0 \<and> res_efficiency res = 0
        \<and> res_efficiency res
            = (if 0 < res_distance res then res_revenue res / res_distance res else 0)"
    using b e2 by (intro exI [of _ ?r2]) simp
  ultimately show ?thesis using ne dd far by blast
qed

text \<open>
  C9. Under the laws of the rounded operations, \<open>calculate_distance\<close> returns \<open>0\<close> for
  two equal points and the same for two points in either order. It is not free of
  errors: it raises \<open>ValueError\<close> exactly when the rounded \<open>a\<close> is negative or \<open>1 - a\<close>
  is, and no other exception. Between antipodal points the doubles give
  \<open>a = 1.0000000000000002\<close>, so that \<open>math.sqrt(1 - a)\<close> raises.
\<close>

theorem calculate_distance_zero_symmetric_raises:
  assumes "double_laws ops"
  shows "calculate_distance ops lat lon lat lon = Inr 0
       \<and> calculate_distance ops lat1 lon1 lat2 lon2 = calculate_distance ops lat2 lon2 lat1 lon1
       \<and> (haversine_a ops lat1 lon1 lat2 lon2 < 0 \<or> 1 - haversine_a ops lat1 lon1 lat2 lon2 < 0
            \<longrightarrow> calculate_distance ops lat1 lon1 lat2 lon2 = Inl ValueError)
       \<and> (\<not> haversine_a ops lat1 lon1 lat2 lon2 < 0
            \<and> \<not> 1 - haversine_a ops lat1 lon1 lat2 lon2 < 0
            \<longrightarrow> (\<exists>d. calculate_distance ops lat1 lon1 lat2 lon2 = Inr d))
       \<and> (calculate_distance ops lat1 lon1 lat2 lon2 = Inl e \<longrightarrow> e = ValueError)"
  using calculate_distance_self [OF assms, of lat lon]
    calculate_distance_sym [OF assms, of lat1 lon1 lat2 lon2]
    calculate_distance_raises [of ops lat1 lon1 lat2 lon2]
    calculate_distance_returns [of ops lat1 lon1 lat2 lon2]
    calculate_distance_error [of ops lat1 lon1 lat2 lon2 e]
  by blast

theorem calculate_distance_zero_symmetric_raises_witness:
  "double_laws coarse_ops
   \<and> calculate_distance coarse_ops 3 4 3 4 = Inr 0
   \<and> calculate_distance coarse_ops 0 1 0 4 = Inr 3
   \<and> calculate_distance coarse_ops 0 1 0 4 = calculate_distance coarse_ops 0 4 0 1
   \<and> haversine_a coarse_ops 0 0 0 300 = 3 / 2
   \<and> calculate_distance coarse_ops 0 0 0 300 = Inl ValueError"
proof -
  have laws: "double_laws coarse_ops" by (simp add: double_laws_def coarse_ops_def)
  have v: "calculate_distance coarse_ops 0 1 0 4 = Inr 3" by code_simp
  have a: "haversine_a coarse_ops 0 0 0 300 = 3 / 2" by code_simp
  then have "1 - haversine_a coarse_ops 0 0 0 300 < 0" by simp
  with calculate_distance_zero_symmetric_raises [OF laws, of 3 4 0 0 0 300]
  have "calculate_distance coarse_ops 3 4 3 4 = Inr 0"
    "calculate_distance coarse_ops 0 0 0 300 = Inl ValueError" by blast+
  moreover from calculate_distance_zero_symmetric_raises [OF laws, of 0 0 0 1 0 4]
  have "calculate_distance coarse_ops 0 1 0 4 = calculate_distance coarse_ops 0 4 0 1" by blast
  ultimately show ?thesis using laws v a by blast
qed

text \<open>
  C4, as the code has it. A row whose material the price table does not hold adds
  nothing to the revenue of its day: the revenue is that of the day without the row.
  No warning is produced. The result of the day holds the route, the locations, the
  distance, the weight, the revenue, the depot, the collection rows and the
  efficiency, and it is the result that the same day has when the table prices the
  material at \<open>0\<close>, where no row is unpriced.
\<close>

theorem unpriced_row_contributes_nothing:
  fixes prices :: "('a::linordered_field) price_table"
  assumes "Material row \<notin> fst ` set prices"
  shows "total_revenue_of (rows1 @ row # rows2) prices = total_revenue_of (rows1 @ rows2) prices
       \<and> (optimize_day gd (rows1 @ row # rows2) depots prices = Inr res \<longrightarrow>
            res_revenue res = total_revenue_of (rows1 @ rows2) prices)
       \<and> optimize_day gd (rows1 @ row # rows2) depots (prices @ [(Material row, 0)])
           = optimize_day gd (rows1 @ row # rows2) depots prices"
proof (intro conjI impI)
  show rev: "total_revenue_of (rows1 @ row # rows2) prices = total_revenue_of (rows1 @ rows2) prices"
    using assms by (rule total_revenue_unpriced)
  show "optimize_day gd (rows1 @ row # rows2) depots (prices @ [(Material row, 0)])
           = optimize_day gd (rows1 @ row # rows2) depots prices"
    using assms by (rule optimize_day_priced_zero)
  assume "optimize_day gd (rows1 @ row # rows2) depots prices = Inr res"
  then have "res_revenue res = total_revenue_of (rows1 @ row # rows2) prices"
    by (rule optimize_day_fields(2))
  with rev show "res_revenue res = total_revenue_of (rows1 @ rows2) prices" by simp
qed

theorem unpriced_row_contributes_nothing_witness:
  "Material glass_at_depot \<notin> fst ` set [(''Paper'', 2 :: real)]
   \<and> total_revenue_of ([paper_stop] @ glass_at_depot # []) [(''Paper'', 2)]
       = total_revenue_of ([paper_stop] @ []) [(''Paper'', 2)]
   \<and> total_revenue_of [paper_stop] [(''Paper'', 2 :: real)] = 20
   \<and> optimize_day flat_distance ([paper_stop] @ glass_at_depot # []) [depot_origin]
        ([(''Paper'', 2)] @ [(Material glass_at_depot, 0)])
       = optimize_day flat_distance ([paper_stop] @ glass_at_depot # []) [depot_origin]
           [(''Paper'', 2)]"
proof -
  have h: "Material glass_at_depot \<notin> fst ` set [(''Paper'', 2 :: real)]"
    by (simp add: glass_at_depot_def)
  have v: "total_revenue_of [paper_stop] [(''Paper'', 2 :: real)] = 20" by code_simp
  from unpriced_row_contributes_nothing [OF h, of "[paper_stop]" "[]" flat_distance "[depot_origin]"]
    h v
  show ?thesis by simp
qed

text \<open>
  A day whose only row is glass, at the depot, with a price table that holds paper
  only: the revenue is \<open>0\<close>, and the whole result, of the day and of the week, is the
  one returned when glass is priced at \<open>0\<close>, so nothing in it marks the row as
  unpriced.
\<close>

theorem unpriced_material_counterexample:
  "optimize_day flat_distance [glass_at_depot] [depot_origin] [(''Paper'', 2)]
     = Inr \<lparr>res_route = [0, 1, 0], res_locations = [(0, 0), (0, 0)], res_distance = 0,
            res_weight = 10, res_revenue = 0, res_depot = depot_origin,
            res_collections = [glass_at_depot], res_efficiency = 0\<rparr>
   \<and> optimize_day flat_distance [glass_at_depot] [depot_origin] [(''Paper'', 2), (''Glass'', 0)]
     = optimize_day flat_distance [glass_at_depot] [depot_origin] [(''Paper'', 2)]
   \<and> optimize_weekly_routes flat_distance [glass_at_depot] [depot_origin] [(''Paper'', 2)]
     = Inr [(''Monday'',
            \<lparr>res_route = [0, 1, 0], res_locations = [(0, 0), (0, 0)], res_distance = 0,
            res_weight = 10, res_revenue = 0, res_depot = depot_origin,
            res_collections = [glass_at_depot], res_efficiency = 0\<rparr>)]"
  by code_simp

text \<open>
  C3. The level chosen in the select box is meant to fix the budget of the improver:
  \<open>OPTIMIZATION_LEVELS\<close> gives \<open>Basic (Nearest Neighbor)\<close> the budget \<open>0\<close>. The code
  does not do so. With the budget \<open>0\<close> the nearest-neighbour tour \<open>[0, 1, 2, 3, 0]\<close> of
  the equator day would be returned as it is; the run of \<open>main\<close> with that level
  returns the shorter tour \<open>[0, 2, 1, 3, 0]\<close>, the one that the budget \<open>1000\<close> gives,
  and for every input the results of \<open>main\<close> are the same with every level.
\<close>

theorem basic_level_runs_two_opt:
  "map_of OPTIMIZATION_LEVELS ''Basic (Nearest Neighbor)'' = Some 0
   \<and> nearest_neighbor_tsp equator_matrix 0 = Inr [0, 1, 2, 3, 0]
   \<and> two_opt_improvement [0, 1, 2, 3, 0] equator_matrix 0 = Inr [0, 1, 2, 3, 0]
   \<and> two_opt_improvement [0, 1, 2, 3, 0] equator_matrix 1000 = Inr [0, 2, 1, 3, 0]
   \<and> main_results flat_distance ''Basic (Nearest Neighbor)'' [''Monday''] equator_week
        [depot_origin] [(''Paper'', 2)]
     = Inr (Some [(''Monday'',
          \<lparr>res_route = [0, 2, 1, 3, 0],
           res_locations = [(0, 0), (0, 1), (0, - (7 / 5)), (0, 4)],
           res_distance = 54 / 5, res_weight = 30, res_revenue = 60,
           res_depot = depot_origin, res_collections = equator_week,
           res_efficiency = 50 / 9\<rparr>)])
   \<and> main_results gd level selected_days weekly_routes depot_locations material_prices
     = main_results gd ''Basic (Nearest Neighbor)'' selected_days weekly_routes depot_locations
         material_prices"
proof -
  have "map_of OPTIMIZATION_LEVELS ''Basic (Nearest Neighbor)'' = Some 0" by code_simp
  moreover have "nearest_neighbor_tsp equator_matrix 0 = Inr [0, 1, 2, 3, 0]" by code_simp
  moreover have "two_opt_improvement [0, 1, 2, 3, 0] equator_matrix 0 = Inr [0, 1, 2, 3, 0]"
    by code_simp
  moreover have "two_opt_improvement [0, 1, 2, 3, 0] equator_matrix 1000 = Inr [0, 2, 1, 3, 0]"
    by code_simp
  moreover have "main_results flat_distance ''Basic (Nearest Neighbor)'' [''Monday''] equator_week
        [depot_origin] [(''Paper'', 2)]
     = Inr (Some [(''Monday'',
          \<lparr>res_route = [0, 2, 1, 3, 0],
           res_locations = [(0, 0), (0, 1), (0, - (7 / 5)), (0, 4)],
           res_distance = 54 / 5, res_weight = 30, res_revenue = 60,
           res_depot = depot_origin, res_collections = equator_week,
           res_efficiency = 50 / 9\<rparr>)])" by code_simp
  moreover have "main_results gd level selected_days weekly_routes depot_locations material_prices
     = main_results gd ''Basic (Nearest Neighbor)'' selected_days weekly_routes depot_locations
         material_prices" by (simp add: main_results_def)
  ultimately show ?thesis by blast
qed

end
